theory Spec2Isabelle
  imports Complex_Main "HOL-Library.Word" "HOL-Library.Char_ord" "HOL-Library.List_Lexorder"
begin

section \<open>Images as the Pillow calls of the program see them\<close>

text \<open>
  The program works on \<open>PIL.Image\<close> objects. An image has a mode, a size and a pixel
  buffer; every channel is one byte. The buffer is kept as a list of rows, each pixel
  as four bytes (Pillow stores RGB pixels in four bytes as well; the fourth byte of an
  RGB pixel and the last three of an L pixel carry no information).
  Only the modes the program can tell apart are modelled: it tests \<open>mode == "RGBA"\<close>
  and nothing else, so RGB and L stand for the modes without an alpha channel.
\<close>

type_synonym byte = "8 word"
type_synonym pixel = "byte \<times> byte \<times> byte \<times> byte"

datatype mode = RGBA | RGB | L

datatype error = ValueError | IndexError | KeyError | ZeroDivisionError | OSError

record image =
  mode :: mode
  width :: nat
  height :: nat
  rows :: "pixel list list"

definition valid :: "image \<Rightarrow> bool" where
  "valid im = (length (rows im) = height im \<and> list_all (\<lambda>r. length r = width im) (rows im))"

text \<open>Reading a pixel; outside the buffer the answer is the zero pixel, which is what
  \<open>Image.crop\<close> fills in beyond the source.\<close>

definition getpixel :: "image \<Rightarrow> nat \<Rightarrow> nat \<Rightarrow> pixel" where
  "getpixel im x y =
     (if y < length (rows im) \<and> x < length (rows im ! y) then rows im ! y ! x else (0, 0, 0, 0))"

definition mk_image :: "mode \<Rightarrow> nat \<Rightarrow> nat \<Rightarrow> (nat \<Rightarrow> nat \<Rightarrow> pixel) \<Rightarrow> image" where
  "mk_image m w h f =
     \<lparr>mode = m, width = w, height = h, rows = map (\<lambda>y. map (\<lambda>x. f x y) [0..<w]) [0..<h]\<rparr>"

text \<open>\<open>Image.new(mode, size, color)\<close>: Pillow rejects a negative width or height with
  ValueError and accepts zero.\<close>

definition Image_new :: "mode \<Rightarrow> int \<times> int \<Rightarrow> pixel \<Rightarrow> error + image" where
  "Image_new m sz color =
     (if fst sz < 0 \<or> snd sz < 0 then Inl ValueError
      else Inr (mk_image m (nat (fst sz)) (nat (snd sz)) (\<lambda>x y. color)))"

text \<open>Conversion of one pixel to RGB and to RGBA (\<open>Image.convert\<close>; \<open>paste\<close> converts a
  source of another mode to the mode of the destination, which is RGBA throughout).\<close>

fun to_rgb :: "mode \<Rightarrow> pixel \<Rightarrow> byte \<times> byte \<times> byte" where
  "to_rgb L (l, _, _, _) = (l, l, l)"
| "to_rgb _ (r, g, b, _) = (r, g, b)"

fun to_rgba :: "mode \<Rightarrow> pixel \<Rightarrow> pixel" where
  "to_rgba RGBA p = p"
| "to_rgba RGB (r, g, b, _) = (r, g, b, 255)"
| "to_rgba L (l, _, _, _) = (l, l, l, 255)"

fun alpha_of :: "pixel \<Rightarrow> byte" where
  "alpha_of (_, _, _, a) = a"

text \<open>Pillow's integer blend of a masked paste: \<open>DIV255(in1 * (255 - mask) + in2 * mask)\<close>
  with \<open>DIV255(a) = ((a + 128) >> 8) + (a + 128)) >> 8\<close>, on every channel, the alpha
  channel included.\<close>

definition div255 :: "nat \<Rightarrow> nat" where
  "div255 a = (let tmp = a + 128 in (tmp div 256 + tmp) div 256)"

definition blend :: "byte \<Rightarrow> byte \<Rightarrow> byte \<Rightarrow> byte" where
  "blend m in1 in2 = of_nat (div255 (unat in1 * (255 - unat m) + unat in2 * unat m))"

fun blend_pixel :: "byte \<Rightarrow> pixel \<Rightarrow> pixel \<Rightarrow> pixel" where
  "blend_pixel m (r1, g1, b1, a1) (r2, g2, b2, a2) =
     (blend m r1 r2, blend m g1 g2, blend m b1 b2, blend m a1 a2)"

text \<open>\<open>dst.paste(src, (x, y), mask)\<close>: the source is placed with its top-left corner at
  \<open>(x, y)\<close> and clipped to the destination. Without a mask the source pixels replace
  the destination's; with a mask (here always the RGBA source itself) each pixel is
  blended by the mask's alpha. Python mutates \<open>dst\<close>; the model returns the new image.\<close>

definition paste_pixel :: "image \<Rightarrow> image option \<Rightarrow> nat \<Rightarrow> nat \<Rightarrow> pixel \<Rightarrow> pixel" where
  "paste_pixel src msk sx sy old =
     (let p = to_rgba (mode src) (getpixel src sx sy)
      in case msk of
           None \<Rightarrow> p
         | Some m \<Rightarrow> blend_pixel (alpha_of (getpixel m sx sy)) old p)"

definition paste :: "image \<Rightarrow> image \<Rightarrow> int \<times> int \<Rightarrow> image option \<Rightarrow> image" where
  "paste dst src box msk =
     mk_image (mode dst) (width dst) (height dst)
       (\<lambda>X Y. let sx = int X - fst box; sy = int Y - snd box
              in if 0 \<le> sx \<and> sx < int (width src) \<and> 0 \<le> sy \<and> sy < int (height src)
                 then paste_pixel src msk (nat sx) (nat sy) (getpixel dst X Y)
                 else getpixel dst X Y)"

text \<open>The pixels of the destination that a paste at \<open>box\<close> writes.\<close>

definition covers :: "image \<Rightarrow> int \<times> int \<Rightarrow> nat \<Rightarrow> nat \<Rightarrow> bool" where
  "covers src box X Y =
     (0 \<le> int X - fst box \<and> int X - fst box < int (width src)
      \<and> 0 \<le> int Y - snd box \<and> int Y - snd box < int (height src))"

definition mask_of :: "image \<Rightarrow> image option" where
  "mask_of frame = (if mode frame = RGBA then Some frame else None)"

section \<open>Sprite sheets (spritesheet.py)\<close>

text \<open>The loop \<open>for frame in frames: paste; x_offset += frame_width + spacing\<close>.\<close>

fun paste_frames :: "image list \<Rightarrow> int \<Rightarrow> int \<Rightarrow> int \<Rightarrow> int \<Rightarrow> image \<Rightarrow> image" where
  "paste_frames [] x_offset y_offset frame_width spacing sprite_sheet = sprite_sheet"
| "paste_frames (frame # frames) x_offset y_offset frame_width spacing sprite_sheet =
     paste_frames frames (x_offset + (frame_width + spacing)) y_offset frame_width spacing
       (paste sprite_sheet frame (x_offset, y_offset) (mask_of frame))"

definition create_animation_sprite_sheet :: "image list \<Rightarrow> int \<Rightarrow> pixel \<Rightarrow> error + image" where
  "create_animation_sprite_sheet frames spacing background_color =
     (case frames of
        [] \<Rightarrow> Inl ValueError
      | frame0 # _ \<Rightarrow>
          let frame_width = int (width frame0);
              frame_height = int (height frame0);
              total_width = int (length frames) * frame_width + (int (length frames) - 1) * spacing
          in (case Image_new RGBA (total_width, frame_height) background_color of
                Inl e \<Rightarrow> Inl e
              | Inr sprite_sheet \<Rightarrow> Inr (paste_frames frames 0 0 frame_width spacing sprite_sheet)))"

text \<open>The animation kinds (models.py) and the strings \<open>sorted(..., key=lambda x: x.value)\<close>
  compares. Strings are ordered as Python orders them: lexicographically by character
  code.\<close>

datatype AnimationType = IDLE | WALK | ATTACK

fun anim_value :: "AnimationType \<Rightarrow> string" where
  "anim_value IDLE = ''idle''"
| "anim_value WALK = ''walk''"
| "anim_value ATTACK = ''attack''"

text \<open>A \<open>dict[AnimationType, List[Image]]\<close> is an association list in insertion order
  (the order Python iterates a dict in) with distinct keys.\<close>

type_synonym animation_dict = "(AnimationType \<times> image list) list"

fun max_frames_of :: "image list list \<Rightarrow> nat" where
  "max_frames_of [] = 0"
| "max_frames_of (frames # rest) = max (length frames) (max_frames_of rest)"

text \<open>The outer loop \<open>for anim_type in animation_types\<close>; \<open>animation_frames[anim_type]\<close>
  raises KeyError on a missing key.\<close>

fun paste_rows ::
  "AnimationType list \<Rightarrow> animation_dict \<Rightarrow> int \<Rightarrow> int \<Rightarrow> int \<Rightarrow> int \<Rightarrow> image \<Rightarrow> error + image" where
  "paste_rows [] animation_frames y_offset frame_width frame_height spacing sprite_sheet =
     Inr sprite_sheet"
| "paste_rows (anim_type # rest) animation_frames y_offset frame_width frame_height spacing sprite_sheet =
     (case map_of animation_frames anim_type of
        None \<Rightarrow> Inl KeyError
      | Some frames \<Rightarrow>
          paste_rows rest animation_frames (y_offset + (frame_height + spacing))
            frame_width frame_height spacing
            (paste_frames frames 0 y_offset frame_width spacing sprite_sheet))"

definition sorted_types :: "animation_dict \<Rightarrow> AnimationType list" where
  "sorted_types animation_frames = sort_key anim_value (map fst animation_frames)"

definition create_combined_sprite_sheet :: "animation_dict \<Rightarrow> int \<Rightarrow> pixel \<Rightarrow> error + image" where
  "create_combined_sprite_sheet animation_frames spacing background_color =
     (case animation_frames of
        [] \<Rightarrow> Inl ValueError
      | (_, first_frames) # _ \<Rightarrow>
          let animation_types = sorted_types animation_frames
          in (case first_frames of
                [] \<Rightarrow> Inl IndexError
              | frame0 # _ \<Rightarrow>
                  let frame_width = int (width frame0);
                      frame_height = int (height frame0);
                      max_frames = int (max_frames_of (map snd animation_frames));
                      total_width = max_frames * frame_width + (max_frames - 1) * spacing;
                      total_height = int (length animation_types) * frame_height
                                     + (int (length animation_types) - 1) * spacing
                  in (case Image_new RGBA (total_width, total_height) background_color of
                        Inl e \<Rightarrow> Inl e
                      | Inr sprite_sheet \<Rightarrow>
                          paste_rows animation_types animation_frames 0
                            frame_width frame_height spacing sprite_sheet)))"

text \<open>\<open>image.resize(size, Image.NEAREST)\<close>: Pillow returns a copy when the size does not
  change, rejects a target width or height below 1 with ValueError, and otherwise
  samples the source at the centre of each target pixel, \<open>floor((x + 1/2) * w / W)\<close>.\<close>

definition resize_nearest :: "image \<Rightarrow> int \<times> int \<Rightarrow> error + image" where
  "resize_nearest im new_size =
     (if new_size = (int (width im), int (height im)) then Inr im
      else if fst new_size < 1 \<or> snd new_size < 1 then Inl ValueError
      else Inr (mk_image (mode im) (nat (fst new_size)) (nat (snd new_size))
             (\<lambda>x y. getpixel im (((2 * x + 1) * width im) div (2 * nat (fst new_size)))
                                (((2 * y + 1) * height im) div (2 * nat (snd new_size))))))"

definition upscale_nearest_neighbor :: "image \<Rightarrow> int \<Rightarrow> error + image" where
  "upscale_nearest_neighbor im scale =
     (let new_size = (int (width im) * scale, int (height im) * scale)
      in resize_nearest im new_size)"

text \<open>The loop \<open>for idx, img in enumerate(images)\<close> of the grid.\<close>

fun paste_cells :: "image list \<Rightarrow> int \<Rightarrow> int \<Rightarrow> int \<Rightarrow> int \<Rightarrow> int \<Rightarrow> image \<Rightarrow> image" where
  "paste_cells [] idx cols img_width img_height spacing grid = grid"
| "paste_cells (img # images) idx cols img_width img_height spacing grid =
     (let row = idx div cols;
          col = idx mod cols;
          x = spacing + col * (img_width + spacing);
          y = spacing + row * (img_height + spacing)
      in paste_cells images (idx + 1) cols img_width img_height spacing
           (paste grid img (x, y) (mask_of img)))"

text \<open>Where the loop puts image number \<open>idx\<close>: the top-left corner of its cell.\<close>

definition cell_origin :: "int \<Rightarrow> int \<Rightarrow> int \<Rightarrow> int \<Rightarrow> int \<Rightarrow> int \<times> int" where
  "cell_origin idx cols img_width img_height spacing =
     (spacing + (idx mod cols) * (img_width + spacing),
      spacing + (idx div cols) * (img_height + spacing))"

definition create_grid_layout :: "image list \<Rightarrow> int \<Rightarrow> int \<Rightarrow> pixel \<Rightarrow> error + image" where
  "create_grid_layout images cols spacing background_color =
     (case images of
        [] \<Rightarrow> Inl ValueError
      | img0 # _ \<Rightarrow>
          let img_width = int (width img0);
              img_height = int (height img0)
          in if cols = 0 then Inl ZeroDivisionError
             else let n_rows = (int (length images) + cols - 1) div cols;
                      total_width = cols * img_width + (cols + 1) * spacing;
                      total_height = n_rows * img_height + (n_rows + 1) * spacing
                  in (case Image_new RGBA (total_width, total_height) background_color of
                        Inl e \<Rightarrow> Inl e
                      | Inr grid \<Rightarrow>
                          Inr (paste_cells images 0 cols img_width img_height spacing grid)))"

section \<open>Colour variants (spritesheet.py, pipeline.py)\<close>

text \<open>
  Pillow's conversions between RGB and its 8-bit HSV mode (\<open>rgb2hsv_row\<close> and \<open>hsv2rgb\<close>
  of Convert.c) follow \<open>colorsys\<close>: hue, saturation and value are each one byte, the hue
  circle being 0..255. They compute in C floating point: the variables are \<open>float\<close>
  (binary32, 24 significant bits), an expression with a constant such as \<open>6.0\<close> is
  evaluated in \<open>double\<close> (binary64, 53 significant bits), and every operation rounds its
  exact result to the nearest value of its type, halves to the even one. A floating-point
  number is a rational, so the model computes in the rationals and rounds after every
  operation as C does. All values that occur lie between \<open>2 ^ - 60\<close> and \<open>2 ^ 11\<close>, or
  are zero, so neither overflow nor subnormal numbers arise and the exponent is not
  bounded in the model.
  \<open>c_round\<close> is C's \<open>round\<close> (halves away from zero), \<open>py_int\<close> is the truncation
  of \<open>int()\<close> and of a C cast, \<open>clip8\<close> the clamp to a byte.
\<close>

text \<open>The number of binary digits of a positive integer.\<close>

function bit_length :: "int \<Rightarrow> int" where
  "bit_length n = (if n \<le> 0 then 0 else 1 + bit_length (n div 2))"
  by auto

termination bit_length
  by (relation "measure nat") auto

definition pow2 :: "int \<Rightarrow> rat" where
  "pow2 e = (if 0 \<le> e then 2 ^ nat e else 1 / 2 ^ nat (- e))"

definition round_half_even :: "rat \<Rightarrow> int" where
  "round_half_even m =
     (let f = \<lfloor>m\<rfloor>; d = m - of_int f
      in if d < 1 / 2 then f else if 1 / 2 < d then f + 1 else if even f then f else f + 1)"

text \<open>Rounding the quotient \<open>a / b\<close> to \<open>p\<close> significant bits: \<open>e\<close> is the exponent of
  \<open>y = \<bar>a / b\<bar>\<close>, that is \<open>2 ^ e \<le> y < 2 ^ (e + 1)\<close>, and \<open>q\<close> the distance between
  neighbouring numbers there.\<close>

fun round_quotient :: "int \<Rightarrow> int \<times> int \<Rightarrow> rat" where
  "round_quotient p (a, b) =
     (if a = 0 \<or> b = 0 then 0
      else let y = \<bar>of_int a / of_int b\<bar>;
               d = bit_length \<bar>a\<bar> - bit_length \<bar>b\<bar>;
               e = (if pow2 d \<le> y then d else d - 1);
               q = pow2 (e - (p - 1))
           in (if (a < 0) = (b < 0) then 1 else - 1) * of_int (round_half_even (y / q)) * q)"

definition fl :: "int \<Rightarrow> rat \<Rightarrow> rat" where
  "fl p x = round_quotient p (quotient_of x)"

definition to_float :: "rat \<Rightarrow> rat" where
  "to_float x = fl 24 x"

definition to_double :: "rat \<Rightarrow> rat" where
  "to_double x = fl 53 x"

definition py_int :: "rat \<Rightarrow> int" where
  "py_int x = (if 0 \<le> x then \<lfloor>x\<rfloor> else \<lceil>x\<rceil>)"

definition c_round :: "rat \<Rightarrow> int" where
  "c_round x = (if 0 \<le> x then \<lfloor>x + 1 / 2\<rfloor> else \<lceil>x - 1 / 2\<rceil>)"

definition clip8 :: "int \<Rightarrow> byte" where
  "clip8 v = (if v \<le> 0 then 0 else if 255 \<le> v then 255 else of_int v)"

definition rat_of_byte :: "byte \<Rightarrow> rat" where
  "rat_of_byte c = of_int (uint c)"

text \<open>\<open>rgb2hsv_row\<close>. \<open>s\<close>, \<open>rc\<close>, \<open>gc\<close>, \<open>bc\<close> are quotients of floats; \<open>bc - gc\<close> is a
  float difference, \<open>2.0 + rc - bc\<close> and \<open>4.0 + gc - rc\<close> are evaluated in double and
  stored in the float \<open>h\<close>; \<open>fmod(h / 6.0 + 1.0, 1.0)\<close> is evaluated in double (\<open>fmod\<close>
  is exact, and its argument is positive) and stored in \<open>h\<close> again; the products with
  \<open>255.0\<close> are doubles.\<close>

definition rgb2hsv :: "byte \<times> byte \<times> byte \<Rightarrow> byte \<times> byte \<times> byte" where
  "rgb2hsv rgb =
     (case rgb of (r, g, b) \<Rightarrow>
        let maxc = max r (max g b);
            minc = min r (min g b)
        in if minc = maxc then (0, 0, maxc)
           else let cr = rat_of_byte maxc - rat_of_byte minc;
                    s = to_float (cr / rat_of_byte maxc);
                    rc = to_float ((rat_of_byte maxc - rat_of_byte r) / cr);
                    gc = to_float ((rat_of_byte maxc - rat_of_byte g) / cr);
                    bc = to_float ((rat_of_byte maxc - rat_of_byte b) / cr);
                    h = (if r = maxc then to_float (bc - gc)
                         else if g = maxc then to_float (to_double (to_double (2 + rc) - bc))
                         else to_float (to_double (to_double (4 + gc) - rc)));
                    h1 = to_float (frac (to_double (to_double (h / 6) + 1)))
                in (clip8 (py_int (to_double (h1 * 255))), clip8 (py_int (to_double (s * 255))), maxc))"

text \<open>\<open>hsv2rgb\<close>. \<open>(float)h * 6.0 / 255.0\<close> is a double; \<open>f\<close> and \<open>fs\<close> are doubles stored
  in floats; \<open>fs * f\<close> is a product of two floats, hence a float, while \<open>1.0 - f\<close> and
  all that contains it are doubles.\<close>

definition hsv2rgb :: "byte \<times> byte \<times> byte \<Rightarrow> byte \<times> byte \<times> byte" where
  "hsv2rgb hsv =
     (case hsv of (h, s, v) \<Rightarrow>
        if s = 0 then (v, v, v)
        else let h6 = to_double (to_double (rat_of_byte h * 6) / 255);
                 i = \<lfloor>h6\<rfloor>;
                 f = to_float (to_double (h6 - of_int i));
                 fs = to_float (to_double (rat_of_byte s / 255));
                 up = clip8 (c_round (to_double (rat_of_byte v * to_double (1 - fs))));
                 uq = clip8 (c_round (to_double (rat_of_byte v * to_double (1 - to_float (fs * f)))));
                 ut = clip8 (c_round (to_double (rat_of_byte v
                               * to_double (1 - to_double (fs * to_double (1 - f))))));
                 k = i mod 6
             in if k = 0 then (v, ut, up)
                else if k = 1 then (uq, v, up)
                else if k = 2 then (up, v, ut)
                else if k = 3 then (up, uq, v)
                else if k = 4 then (ut, up, v)
                else (v, up, uq))"

text \<open>The body of the loop over \<open>hsv_image.getdata()\<close>. \<open>saturation_factor\<close> is a Python
  float, which is a double; \<open>s * saturation_factor\<close> is a product of doubles.\<close>

definition shift_hsv :: "int \<Rightarrow> rat \<Rightarrow> byte \<times> byte \<times> byte \<Rightarrow> byte \<times> byte \<times> byte" where
  "shift_hsv hue_shift saturation_factor hsv =
     (case hsv of (h, s, v) \<Rightarrow>
        let new_h = (uint h + hue_shift) mod 256;
            new_s = min 255 (max 0 (py_int (to_double (rat_of_byte s * saturation_factor))))
        in (of_int new_h, of_int new_s, v))"

text \<open>\<open>apply_color_variant\<close>: the image is taken through RGB and HSV, every pixel is
  shifted (\<open>getdata\<close> and \<open>putdata\<close> run over the pixels in the same order), and the
  result is converted back; \<open>alpha\<close> is band 3 of an RGBA input and \<open>None\<close> otherwise,
  and \<open>convert("RGBA")\<close> sets an opaque alpha that \<open>putalpha\<close> then overwrites.\<close>

definition apply_color_variant :: "image \<Rightarrow> int \<Rightarrow> rat \<Rightarrow> image" where
  "apply_color_variant base_image hue_shift saturation_factor =
     (let rgb_image = map (map (to_rgb (mode base_image))) (rows base_image);
          hsv_image = map (map rgb2hsv) rgb_image;
          alpha = (if mode base_image = RGBA
                   then Some (map (map alpha_of) (rows base_image)) else None);
          hsv_data = map (map (shift_hsv hue_shift saturation_factor)) hsv_image;
          result = map (map (\<lambda>hsv. case hsv2rgb hsv of (r, g, b) \<Rightarrow> (r, g, b, 255 :: byte))) hsv_data
      in \<lparr>mode = RGBA, width = width base_image, height = height base_image,
          rows = (case alpha of
                    Some band \<Rightarrow>
                      map2 (map2 (\<lambda>p a. case p of (r, g, b, _) \<Rightarrow> (r, g, b, a))) result band
                  | None \<Rightarrow> result)\<rparr>)"

text \<open>The colour step of \<open>CreaturePackPipeline.generate_creature\<close>, on the frames the
  generator returned for one animation. \<open>0.8\<close> and \<open>0.2\<close> are the doubles nearest to
  8/10 and 2/10, and \<open>0.8 + (variant_index * 0.2)\<close> is computed in doubles.\<close>

definition variant_frames :: "int \<Rightarrow> image list \<Rightarrow> image list" where
  "variant_frames variant_index frames =
     (if variant_index > 0
      then let hue_shift = variant_index * 60;
               saturation_factor =
                 to_double (to_double (8 / 10) + to_double (of_int variant_index * to_double (2 / 10)))
           in map (\<lambda>frame. apply_color_variant frame hue_shift saturation_factor) frames
      else frames)"

section \<open>The pack preview (preview.py)\<close>

text \<open>
  Text is drawn by \<open>ImageFont\<close> and \<open>ImageDraw\<close>, which are not part of the program:
  they are a parameter. \<open>truetype\<close> may raise (OSError when the font file is missing),
  \<open>textbbox\<close> measures a string, and \<open>text_pixel\<close> gives, for a drawing request, the
  new value of the pixel at \<open>(x, y)\<close> from its old one, since drawing text changes
  pixels in place and neither the size nor the mode.
\<close>

datatype font = TrueType string int | DefaultFont

record text_lib =
  truetype :: "string \<Rightarrow> int \<Rightarrow> error + font"
  load_default :: font
  textbbox :: "int \<times> int \<Rightarrow> string \<Rightarrow> font \<Rightarrow> int \<times> int \<times> int \<times> int"
  text_pixel :: "int \<times> int \<Rightarrow> string \<Rightarrow> pixel \<Rightarrow> font \<Rightarrow> nat \<Rightarrow> nat \<Rightarrow> pixel \<Rightarrow> pixel"

definition draw_text :: "text_lib \<Rightarrow> image \<Rightarrow> int \<times> int \<Rightarrow> string \<Rightarrow> pixel \<Rightarrow> font \<Rightarrow> image" where
  "draw_text lib im xy s fill fnt =
     mk_image (mode im) (width im) (height im)
       (\<lambda>x y. text_pixel lib xy s fill fnt x y (getpixel im x y))"

text \<open>The fields of \<open>PackMetadata\<close> (models.py) apart from the list of creatures, which
  the preview does not read.\<close>

record PackMetadata =
  pack_id :: string
  pack_name :: string
  theme_name :: string
  generation_date :: string
  resolution :: "int \<times> int"
  num_creatures :: int
  num_variants :: int
  animation_types :: "string list"

fun str_nat :: "nat \<Rightarrow> string" where
  "str_nat n = (if n < 10 then [char_of (48 + n)]
                else str_nat (n div 10) @ [char_of (48 + n mod 10)])"

definition str_int :: "int \<Rightarrow> string" where
  "str_int i = (if i < 0 then CHR ''-'' # str_nat (nat (- i)) else str_nat (nat i))"

text \<open>\<open>sheet.crop((left, upper, right, lower))\<close>, for a box with \<open>left \<le> right\<close> and
  \<open>upper \<le> lower\<close> (the program crops \<open>(0, 0, h, h)\<close> only); beyond the source the
  crop is zero.\<close>

definition crop :: "image \<Rightarrow> int \<times> int \<times> int \<times> int \<Rightarrow> image" where
  "crop im box =
     (case box of (left, upper, right, lower) \<Rightarrow>
        mk_image (mode im) (nat (right - left)) (nat (lower - upper))
          (\<lambda>x y. let sx = int x + left; sy = int y + upper
                 in if 0 \<le> sx \<and> sx < int (width im) \<and> 0 \<le> sy \<and> sy < int (height im)
                    then getpixel im (nat sx) (nat sy) else (0, 0, 0, 0)))"

text \<open>The loop \<open>for sheet in sprite_sheets[:20]\<close>, which stops at the first error.\<close>

fun preview_sprites_of :: "image list \<Rightarrow> int \<Rightarrow> error + image list" where
  "preview_sprites_of [] scale = Inr []"
| "preview_sprites_of (sheet # sheets) scale =
     (let frame_height = int (height sheet);
          frame_width = frame_height;
          first_frame = crop sheet (0, 0, frame_width, frame_height)
      in (case upscale_nearest_neighbor first_frame scale of
            Inl e \<Rightarrow> Inl e
          | Inr upscaled \<Rightarrow>
              (case preview_sprites_of sheets scale of
                 Inl e \<Rightarrow> Inl e
               | Inr preview_sprites \<Rightarrow> Inr (upscaled # preview_sprites))))"

text \<open>The \<open>try\<close> around the two \<open>truetype\<close> calls: OSError (IOError is the same class)
  falls back to the default font for both, any other error is raised.\<close>

definition load_fonts :: "text_lib \<Rightarrow> int \<Rightarrow> error + font \<times> font" where
  "load_fonts lib scale =
     (case truetype lib ''/usr/share/fonts/truetype/dejavu/DejaVuSans-Bold.ttf'' (24 * scale div 4) of
        Inl e \<Rightarrow> if e = OSError then Inr (load_default lib, load_default lib) else Inl e
      | Inr title_font \<Rightarrow>
          (case truetype lib ''/usr/share/fonts/truetype/dejavu/DejaVuSans.ttf'' (16 * scale div 4) of
             Inl e \<Rightarrow> if e = OSError then Inr (load_default lib, load_default lib) else Inl e
           | Inr info_font \<Rightarrow> Inr (title_font, info_font)))"

definition info_text_of :: "PackMetadata \<Rightarrow> string" where
  "info_text_of pack_metadata =
     ''Theme: '' @ theme_name pack_metadata @ '' | ''
     @ str_int (num_creatures pack_metadata) @ '' Creatures | ''
     @ str_int (num_variants pack_metadata) @ '' Variants | ''
     @ str_int (fst (resolution pack_metadata)) @ ''x'' @ str_int (snd (resolution pack_metadata))"

text \<open>Files written by \<open>preview.save(output_path, "PNG")\<close>: a map from paths to the image
  stored there. An exception leaves the files as they were.\<close>

type_synonym files = "string \<Rightarrow> image option"

definition bg_color :: pixel where
  "bg_color = (26, 26, 26, 255)"

text \<open>The lines that draw the title and the summary on the new preview image.\<close>

definition draw_header :: "text_lib \<Rightarrow> PackMetadata \<Rightarrow> int \<Rightarrow> image \<Rightarrow> error + image" where
  "draw_header lib pack_metadata scale preview =
     (case load_fonts lib scale of
        Inl e \<Rightarrow> Inl e
      | Inr (title_font, info_font) \<Rightarrow>
          let final_width = int (width preview);
              title = pack_name pack_metadata;
              title_bbox = textbbox lib (0, 0) title title_font;
              title_width = fst (snd (snd title_bbox)) - fst title_bbox;
              title_x = (final_width - title_width) div 2;
              preview1 = draw_text lib preview (title_x, 10 * scale) title
                           (255, 255, 255, 255) title_font;
              info_text = info_text_of pack_metadata;
              info_bbox = textbbox lib (0, 0) info_text info_font;
              info_width = fst (snd (snd info_bbox)) - fst info_bbox;
              info_x = (final_width - info_width) div 2
          in Inr (draw_text lib preview1 (info_x, 40 * scale) info_text
                    (200, 200, 200, 255) info_font))"

definition create_pack_preview ::
  "image list \<Rightarrow> PackMetadata \<Rightarrow> int \<Rightarrow> int \<Rightarrow> string option \<Rightarrow> text_lib \<Rightarrow> files
     \<Rightarrow> (error + image) \<times> files" where
  "create_pack_preview sprite_sheets pack_metadata scale cols output_path lib fs =
     (if sprite_sheets = [] then (Inl ValueError, fs)
      else case preview_sprites_of (take 20 sprite_sheets) scale of
        Inl e \<Rightarrow> (Inl e, fs)
      | Inr preview_sprites \<Rightarrow>
          let spacing = 8 * scale
          in (case create_grid_layout preview_sprites cols spacing bg_color of
                Inl e \<Rightarrow> (Inl e, fs)
              | Inr grid \<Rightarrow>
                  let header_height = 80 * scale;
                      final_width = int (width grid);
                      final_height = int (height grid) + header_height
                  in (case Image_new RGBA (final_width, final_height) bg_color of
                        Inl e \<Rightarrow> (Inl e, fs)
                      | Inr preview0 \<Rightarrow>
                          (case draw_header lib pack_metadata scale preview0 of
                             Inl e \<Rightarrow> (Inl e, fs)
                           | Inr preview2 \<Rightarrow>
                               let preview = paste preview2 grid (0, header_height) (Some grid)
                               in (Inr preview,
                                   (case output_path of
                                      None \<Rightarrow> fs
                                    | Some path \<Rightarrow> fs(path \<mapsto> preview)))))))"

section \<open>Facts about images and pasting\<close>

lemma mk_image_fields [simp]:
  "mode (mk_image m w h f) = m" "width (mk_image m w h f) = w" "height (mk_image m w h f) = h"
  by (simp_all add: mk_image_def)

lemma getpixel_mk_image [simp]:
  "x < w \<Longrightarrow> y < h \<Longrightarrow> getpixel (mk_image m w h f) x y = f x y"
  by (simp add: mk_image_def getpixel_def)

lemma valid_mk_image [simp]: "valid (mk_image m w h f)"
  by (simp add: valid_def mk_image_def list_all_iff)

lemma paste_fields [simp]:
  "mode (paste dst src box msk) = mode dst"
  "width (paste dst src box msk) = width dst"
  "height (paste dst src box msk) = height dst"
  by (simp_all add: paste_def)

lemma getpixel_paste:
  "X < width dst \<Longrightarrow> Y < height dst \<Longrightarrow>
   getpixel (paste dst src box msk) X Y =
     (if covers src box X Y
      then paste_pixel src msk (nat (int X - fst box)) (nat (int Y - snd box)) (getpixel dst X Y)
      else getpixel dst X Y)"
  by (simp add: paste_def covers_def Let_def)

lemma paste_frames_fields [simp]:
  "mode (paste_frames frames x y fw s sheet) = mode sheet"
  "width (paste_frames frames x y fw s sheet) = width sheet"
  "height (paste_frames frames x y fw s sheet) = height sheet"
  by (induction frames arbitrary: x sheet; simp)+

lemma paste_frames_outside:
  "X < width sheet \<Longrightarrow> Y < height sheet \<Longrightarrow>
   (\<forall>i<length frames. \<not> covers (frames ! i) (x0 + int i * (fw + s), y0) X Y) \<Longrightarrow>
   getpixel (paste_frames frames x0 y0 fw s sheet) X Y = getpixel sheet X Y"
proof (induction frames arbitrary: x0 sheet)
  case Nil
  then show ?case by simp
next
  case (Cons f fs)
  have n0: "\<not> covers f (x0, y0) X Y"
    using Cons.prems(3) [rule_format, of 0] by simp
  have rest: "\<forall>i<length fs. \<not> covers (fs ! i) (x0 + (fw + s) + int i * (fw + s), y0) X Y"
  proof (intro allI impI)
    fix i assume "i < length fs"
    then show "\<not> covers (fs ! i) (x0 + (fw + s) + int i * (fw + s), y0) X Y"
      using Cons.prems(3) [rule_format, of "Suc i"] by (simp add: algebra_simps)
  qed
  have "getpixel (paste_frames fs (x0 + (fw + s)) y0 fw s (paste sheet f (x0, y0) (mask_of f))) X Y
        = getpixel (paste sheet f (x0, y0) (mask_of f)) X Y"
    using Cons.IH [of "paste sheet f (x0, y0) (mask_of f)" "x0 + (fw + s)"] Cons.prems(1,2) rest
    by simp
  also have "\<dots> = getpixel sheet X Y"
    using n0 Cons.prems(1,2) by (simp add: getpixel_paste)
  finally show ?case by simp
qed

lemma paste_frames_inside:
  "X < width sheet \<Longrightarrow> Y < height sheet \<Longrightarrow> i < length frames \<Longrightarrow>
   covers (frames ! i) (x0 + int i * (fw + s), y0) X Y \<Longrightarrow>
   (\<forall>j<length frames. j \<noteq> i \<longrightarrow> \<not> covers (frames ! j) (x0 + int j * (fw + s), y0) X Y) \<Longrightarrow>
   getpixel (paste_frames frames x0 y0 fw s sheet) X Y =
     paste_pixel (frames ! i) (mask_of (frames ! i))
       (nat (int X - (x0 + int i * (fw + s)))) (nat (int Y - y0)) (getpixel sheet X Y)"
proof (induction frames arbitrary: x0 sheet i)
  case Nil
  then show ?case by simp
next
  case (Cons f fs)
  let ?sheet' = "paste sheet f (x0, y0) (mask_of f)"
  show ?case
  proof (cases i)
    case 0
    have rest: "\<forall>j<length fs. \<not> covers (fs ! j) (x0 + (fw + s) + int j * (fw + s), y0) X Y"
    proof (intro allI impI)
      fix j assume "j < length fs"
      then show "\<not> covers (fs ! j) (x0 + (fw + s) + int j * (fw + s), y0) X Y"
        using Cons.prems(5) [rule_format, of "Suc j"] 0 by (simp add: algebra_simps)
    qed
    have "getpixel (paste_frames fs (x0 + (fw + s)) y0 fw s ?sheet') X Y = getpixel ?sheet' X Y"
      using paste_frames_outside [of X ?sheet' Y fs "x0 + (fw + s)" fw s y0] Cons.prems(1,2) rest
      by simp
    then show ?thesis
      using 0 Cons.prems(1,2,4) by (simp add: getpixel_paste)
  next
    case (Suc k)
    have k: "k < length fs" using Cons.prems(3) Suc by simp
    have cov: "covers (fs ! k) (x0 + (fw + s) + int k * (fw + s), y0) X Y"
      using Cons.prems(4) Suc by (simp add: algebra_simps)
    have others: "\<forall>j<length fs. j \<noteq> k \<longrightarrow> \<not> covers (fs ! j) (x0 + (fw + s) + int j * (fw + s), y0) X Y"
    proof (intro allI impI)
      fix j assume "j < length fs" "j \<noteq> k"
      then show "\<not> covers (fs ! j) (x0 + (fw + s) + int j * (fw + s), y0) X Y"
        using Cons.prems(5) [rule_format, of "Suc j"] Suc by (simp add: algebra_simps)
    qed
    have n0: "\<not> covers f (x0, y0) X Y"
      using Cons.prems(5) [rule_format, of 0] Suc by simp
    have "getpixel (paste_frames fs (x0 + (fw + s)) y0 fw s ?sheet') X Y =
          paste_pixel (fs ! k) (mask_of (fs ! k))
            (nat (int X - (x0 + (fw + s) + int k * (fw + s)))) (nat (int Y - y0)) (getpixel ?sheet' X Y)"
      using Cons.IH [of ?sheet' k "x0 + (fw + s)"] Cons.prems(1,2) k cov others by simp
    moreover have "getpixel ?sheet' X Y = getpixel sheet X Y"
      using n0 Cons.prems(1,2) by (simp add: getpixel_paste)
    moreover have "x0 + (fw + s) + int k * (fw + s) = x0 + int (Suc k) * (fw + s)"
      by (simp add: algebra_simps)
    ultimately show ?thesis using Suc by simp
  qed
qed

lemma Image_new_fields:
  "Image_new m sz c = Inr im \<Longrightarrow> mode im = m \<and> width im = nat (fst sz) \<and> height im = nat (snd sz)"
  by (auto simp: Image_new_def split: if_splits)

lemma getpixel_Image_new:
  "Image_new m sz c = Inr im \<Longrightarrow> x < width im \<Longrightarrow> y < height im \<Longrightarrow> getpixel im x y = c"
  by (auto simp: Image_new_def split: if_splits)


lemma paste_cells_fields [simp]:
  "mode (paste_cells images idx cols w h s grid) = mode grid"
  "width (paste_cells images idx cols w h s grid) = width grid"
  "height (paste_cells images idx cols w h s grid) = height grid"
  by (induction images arbitrary: idx grid; simp add: Let_def)+



lemma create_grid_layout_mode:
  "create_grid_layout images cols s bg = Inr out \<Longrightarrow> mode out = RGBA"
  by (auto simp: create_grid_layout_def Let_def
           split: list.splits sum.splits if_splits dest: Image_new_fields)

lemma draw_text_fields [simp]:
  "mode (draw_text lib im xy s fill fnt) = mode im"
  "width (draw_text lib im xy s fill fnt) = width im"
  "height (draw_text lib im xy s fill fnt) = height im"
  by (simp_all add: draw_text_def)

lemma draw_header_fields:
  "draw_header lib meta scale im = Inr out \<Longrightarrow>
   mode out = mode im \<and> width out = width im \<and> height out = height im"
  by (auto simp: draw_header_def Let_def split: sum.splits prod.splits)


lemma apply_color_variant_fields [simp]:
  "mode (apply_color_variant im hs sf) = RGBA"
  "width (apply_color_variant im hs sf) = width im"
  "height (apply_color_variant im hs sf) = height im"
  by (simp_all add: apply_color_variant_def Let_def)


section \<open>Empty inputs\<close>

text \<open>
  C8. An empty input fails at once: each of \<open>create_animation_sprite_sheet\<close>,
  \<open>create_combined_sprite_sheet\<close>, \<open>create_grid_layout\<close> and \<open>create_pack_preview\<close>
  raises ValueError on an empty list or mapping, whatever the other arguments are; no
  image is returned and the preview writes no file (the files are as before the call).
\<close>

theorem empty_input_raises_ValueError:
  "create_animation_sprite_sheet [] spacing background = Inl ValueError
   \<and> create_combined_sprite_sheet [] spacing background = Inl ValueError
   \<and> create_grid_layout [] cols spacing background = Inl ValueError
   \<and> create_pack_preview [] pack_metadata scale cols output_path lib fs = (Inl ValueError, fs)"
  by (simp add: create_animation_sprite_sheet_def create_combined_sprite_sheet_def
        create_grid_layout_def create_pack_preview_def)

section \<open>Facts about cropping, scaling and the grid\<close>

lemma crop_fields [simp]:
  "mode (crop im (l, u, r, b)) = mode im"
  "width (crop im (l, u, r, b)) = nat (r - l)"
  "height (crop im (l, u, r, b)) = nat (b - u)"
  by (simp_all add: crop_def)

lemma getpixel_crop_origin:
  "x < nat r \<Longrightarrow> y < nat b \<Longrightarrow>
   getpixel (crop im (0, 0, r, b)) x y =
     (if x < width im \<and> y < height im then getpixel im x y else (0, 0, 0, 0))"
  by (simp add: crop_def)

lemma centre_sample: "0 < k \<Longrightarrow> ((2 * x + 1) * w) div (2 * (w * k)) = (if w = 0 then 0 else x div k)" for x :: nat
proof (cases "w = 0")
  case True
  then show ?thesis by simp
next
  case False
  assume k: "0 < k"
  have "2 * (w * k) = w * (2 * k)" by simp
  then have "((2 * x + 1) * w) div (2 * (w * k)) = (w * (2 * x + 1)) div (w * (2 * k))"
    by (simp only: mult.commute [of "2 * x + 1" w])
  also have "\<dots> = (2 * x + 1) div (2 * k)"
    using False by (simp only: div_mult_mult1 [OF False])
  also have "\<dots> = ((2 * x + 1) div 2) div k"
    by (simp add: div_mult2_eq)
  also have "\<dots> = x div k" by simp
  finally show ?thesis using False by simp
qed

lemma upscale_ok:
  assumes "1 \<le> scale" and "0 < width im" and "0 < height im"
  shows "\<exists>up. upscale_nearest_neighbor im scale = Inr up
           \<and> mode up = mode im
           \<and> width up = width im * nat scale \<and> height up = height im * nat scale
           \<and> (\<forall>x<width up. \<forall>y<height up.
                 getpixel up x y = getpixel im (x div nat scale) (y div nat scale))"
proof (cases "scale = 1")
  case True
  then show ?thesis
    by (simp add: upscale_nearest_neighbor_def resize_nearest_def)
next
  case False
  with assms(1) have s2: "2 \<le> scale" by simp
  have wne: "int (width im) * scale \<noteq> int (width im)"
    using s2 assms(2) by simp
  have "0 < int (width im) * scale" "0 < int (height im) * scale"
    using s2 assms(2,3) by (simp_all add: mult_pos_pos)
  then have w1: "\<not> int (width im) * scale < 1" and h1: "\<not> int (height im) * scale < 1"
    by linarith+
  have nw: "nat (int (width im) * scale) = width im * nat scale"
    using s2 by (simp add: nat_mult_distrib)
  have nh: "nat (int (height im) * scale) = height im * nat scale"
    using s2 by (simp add: nat_mult_distrib)
  have k: "0 < nat scale" using s2 by simp
  define up where "up = mk_image (mode im) (width im * nat scale) (height im * nat scale)
     (\<lambda>x y. getpixel im (((2 * x + 1) * width im) div (2 * (width im * nat scale)))
                        (((2 * y + 1) * height im) div (2 * (height im * nat scale))))"
  have res: "upscale_nearest_neighbor im scale = Inr up"
    using wne w1 h1 unfolding upscale_nearest_neighbor_def resize_nearest_def Let_def up_def
    by (simp only: fst_conv snd_conv nw nh prod.inject if_False simp_thms)
  have px: "getpixel up x y = getpixel im (x div nat scale) (y div nat scale)"
    if "x < width up" "y < height up" for x y
  proof -
    have "getpixel up x y =
            getpixel im (((2 * x + 1) * width im) div (2 * (width im * nat scale)))
                        (((2 * y + 1) * height im) div (2 * (height im * nat scale)))"
      using that unfolding up_def by (simp only: mk_image_fields getpixel_mk_image)
    also have "\<dots> = getpixel im (x div nat scale) (y div nat scale)"
      using assms(2,3) by (simp only: centre_sample [OF k]) simp
    finally show ?thesis .
  qed
  have "mode up = mode im" "width up = width im * nat scale" "height up = height im * nat scale"
    by (simp_all add: up_def)
  with res px show ?thesis by blast
qed

lemma upscale_empty:
  assumes "width im = 0" and "height im = 0"
  shows "upscale_nearest_neighbor im scale = Inr im"
  using assms by (simp add: upscale_nearest_neighbor_def resize_nearest_def)

lemma upscale_shape:
  assumes "1 \<le> scale" and "width im = 0 \<longleftrightarrow> height im = 0"
  shows "\<exists>up. upscale_nearest_neighbor im scale = Inr up
           \<and> mode up = mode im
           \<and> width up = width im * nat scale \<and> height up = height im * nat scale
           \<and> (\<forall>x<width up. \<forall>y<height up.
                 getpixel up x y = getpixel im (x div nat scale) (y div nat scale))"
proof (cases "width im = 0")
  case True
  with assms(2) have "height im = 0" by simp
  with True show ?thesis by (simp add: upscale_empty)
next
  case False
  with assms(2) have "0 < width im" "0 < height im" by simp_all
  with assms(1) show ?thesis by (rule upscale_ok)
qed

lemma preview_sprites_of_shape:
  assumes "1 \<le> scale"
  shows "\<exists>sprites. preview_sprites_of sheets scale = Inr sprites
           \<and> length sprites = length sheets
           \<and> (\<forall>i<length sheets.
                 mode (sprites ! i) = mode (sheets ! i)
                 \<and> width (sprites ! i) = height (sheets ! i) * nat scale
                 \<and> height (sprites ! i) = height (sheets ! i) * nat scale
                 \<and> (\<forall>x<height (sheets ! i) * nat scale. \<forall>y<height (sheets ! i) * nat scale.
                       getpixel (sprites ! i) x y =
                         (if x div nat scale < width (sheets ! i)
                          then getpixel (sheets ! i) (x div nat scale) (y div nat scale)
                          else (0, 0, 0, 0))))"
proof (induction sheets)
  case Nil
  then show ?case by simp
next
  case (Cons sheet sheets)
  let ?h = "int (height sheet)"
  let ?c = "crop sheet (0, 0, ?h, ?h)"
  have k: "0 < nat scale" using assms by simp
  have cw: "width ?c = height sheet" and ch: "height ?c = height sheet" and cm: "mode ?c = mode sheet"
    by simp_all
  then have "width ?c = 0 \<longleftrightarrow> height ?c = 0" by simp
  from upscale_shape [OF assms this] obtain up where
    up: "upscale_nearest_neighbor ?c scale = Inr up" "mode up = mode sheet"
        "width up = height sheet * nat scale" "height up = height sheet * nat scale"
    and uppx: "\<forall>x<width up. \<forall>y<height up.
                 getpixel up x y = getpixel ?c (x div nat scale) (y div nat scale)"
    using cw ch cm by auto
  have px: "getpixel up x y = (if x div nat scale < width sheet
                          then getpixel sheet (x div nat scale) (y div nat scale)
                          else (0, 0, 0, 0))"
    if "x < height sheet * nat scale" "y < height sheet * nat scale" for x y
  proof -
    have dx: "x div nat scale < height sheet" and dy: "y div nat scale < height sheet"
      using that k by (simp_all add: less_mult_imp_div_less)
    have "getpixel up x y = getpixel ?c (x div nat scale) (y div nat scale)"
      using uppx that up(3,4) by simp
    also have "\<dots> = (if x div nat scale < width sheet \<and> y div nat scale < height sheet
                      then getpixel sheet (x div nat scale) (y div nat scale) else (0, 0, 0, 0))"
      using dx dy by (simp add: getpixel_crop_origin)
    finally show ?thesis using dy by simp
  qed
  from Cons.IH obtain sprites where
    sp: "preview_sprites_of sheets scale = Inr sprites" "length sprites = length sheets"
    and rest: "\<forall>i<length sheets.
                 mode (sprites ! i) = mode (sheets ! i)
                 \<and> width (sprites ! i) = height (sheets ! i) * nat scale
                 \<and> height (sprites ! i) = height (sheets ! i) * nat scale
                 \<and> (\<forall>x<height (sheets ! i) * nat scale. \<forall>y<height (sheets ! i) * nat scale.
                       getpixel (sprites ! i) x y =
                         (if x div nat scale < width (sheets ! i)
                          then getpixel (sheets ! i) (x div nat scale) (y div nat scale)
                          else (0, 0, 0, 0)))"
    by blast
  have res: "preview_sprites_of (sheet # sheets) scale = Inr (up # sprites)"
    using up(1) sp(1) by (simp add: Let_def)
  have "\<forall>i<length (sheet # sheets).
                 mode ((up # sprites) ! i) = mode ((sheet # sheets) ! i)
                 \<and> width ((up # sprites) ! i) = height ((sheet # sheets) ! i) * nat scale
                 \<and> height ((up # sprites) ! i) = height ((sheet # sheets) ! i) * nat scale
                 \<and> (\<forall>x<height ((sheet # sheets) ! i) * nat scale. \<forall>y<height ((sheet # sheets) ! i) * nat scale.
                       getpixel ((up # sprites) ! i) x y =
                         (if x div nat scale < width ((sheet # sheets) ! i)
                          then getpixel ((sheet # sheets) ! i) (x div nat scale) (y div nat scale)
                          else (0, 0, 0, 0)))"
  proof (intro allI impI)
    fix i assume "i < length (sheet # sheets)"
    then show "mode ((up # sprites) ! i) = mode ((sheet # sheets) ! i)
                 \<and> width ((up # sprites) ! i) = height ((sheet # sheets) ! i) * nat scale
                 \<and> height ((up # sprites) ! i) = height ((sheet # sheets) ! i) * nat scale
                 \<and> (\<forall>x<height ((sheet # sheets) ! i) * nat scale. \<forall>y<height ((sheet # sheets) ! i) * nat scale.
                       getpixel ((up # sprites) ! i) x y =
                         (if x div nat scale < width ((sheet # sheets) ! i)
                          then getpixel ((sheet # sheets) ! i) (x div nat scale) (y div nat scale)
                          else (0, 0, 0, 0)))"
      using up(2,3,4) px rest by (cases i) simp_all
  qed
  with res sp(2) show ?case by simp
qed

lemma create_grid_layout_shape:
  assumes "images \<noteq> []" and "1 \<le> cols" and "0 \<le> spacing"
  shows "\<exists>grid. create_grid_layout images cols spacing background = Inr grid
           \<and> mode grid = RGBA
           \<and> int (width grid) = cols * int (width (hd images)) + (cols + 1) * spacing
           \<and> int (height grid) =
                ((int (length images) + cols - 1) div cols) * int (height (hd images))
                + ((int (length images) + cols - 1) div cols + 1) * spacing"
proof -
  obtain img0 rest where im: "images = img0 # rest" using assms(1) by (cases images) auto
  let ?r = "(int (length images) + cols - 1) div cols"
  have r: "0 \<le> ?r" using assms(2) by (simp add: pos_imp_zdiv_nonneg_iff)
  have w: "0 \<le> cols * int (width img0) + (cols + 1) * spacing"
    using assms(2,3) by simp
  have h: "0 \<le> ?r * int (height img0) + (?r + 1) * spacing"
    using r assms(3) by simp
  show ?thesis
    using assms(2) w h unfolding im create_grid_layout_def Image_new_def Let_def
    by (simp add: not_less)
qed

lemma load_fonts_ok:
  assumes "\<forall>p s e. truetype lib p s = Inl e \<longrightarrow> e = OSError"
  shows "\<exists>fonts. load_fonts lib scale = Inr fonts"
  using assms by (auto simp: load_fonts_def split: sum.splits)

lemma draw_header_ok:
  assumes "\<forall>p s e. truetype lib p s = Inl e \<longrightarrow> e = OSError"
  shows "\<exists>header. draw_header lib meta scale im = Inr header"
proof -
  from load_fonts_ok [OF assms] obtain fonts where "load_fonts lib scale = Inr fonts" by blast
  then show ?thesis by (cases fonts) (simp add: draw_header_def Let_def)
qed

section \<open>Facts about the pack preview\<close>

lemma create_pack_preview_shape:
  assumes "sprite_sheets \<noteq> []" and "1 \<le> scale" and "1 \<le> cols"
    and "\<forall>p s e. truetype lib p s = Inl e \<longrightarrow> e = OSError"
  shows "\<exists>sprites grid canvas header preview.
     preview_sprites_of (take 20 sprite_sheets) scale = Inr sprites
     \<and> length sprites = min 20 (length sprite_sheets)
     \<and> (\<forall>i<length sprites.
           width (sprites ! i) = height (sprite_sheets ! i) * nat scale
           \<and> height (sprites ! i) = height (sprite_sheets ! i) * nat scale
           \<and> (\<forall>x<height (sprite_sheets ! i) * nat scale. \<forall>y<height (sprite_sheets ! i) * nat scale.
                 getpixel (sprites ! i) x y =
                   (if x div nat scale < width (sprite_sheets ! i)
                    then getpixel (sprite_sheets ! i) (x div nat scale) (y div nat scale)
                    else (0, 0, 0, 0))))
     \<and> create_grid_layout sprites cols (8 * scale) bg_color = Inr grid
     \<and> int (width grid) = cols * (int (height (hd sprite_sheets)) * scale) + (cols + 1) * (8 * scale)
     \<and> int (height grid) =
          ((int (min 20 (length sprite_sheets)) + cols - 1) div cols) * (int (height (hd sprite_sheets)) * scale)
          + ((int (min 20 (length sprite_sheets)) + cols - 1) div cols + 1) * (8 * scale)
     \<and> Image_new RGBA (int (width grid), int (height grid) + 80 * scale) bg_color = Inr canvas
     \<and> draw_header lib pack_metadata scale canvas = Inr header
     \<and> create_pack_preview sprite_sheets pack_metadata scale cols output_path lib fs =
          (Inr preview, case output_path of None \<Rightarrow> fs | Some path \<Rightarrow> fs(path \<mapsto> preview))
     \<and> mode preview = RGBA
     \<and> width preview = width grid
     \<and> int (height preview) = int (height grid) + 80 * scale
     \<and> (\<forall>x<width grid. \<forall>y<nat (80 * scale). getpixel preview x y = getpixel header x y)
     \<and> (\<forall>x<width grid. \<forall>y<height grid.
           getpixel preview x (y + nat (80 * scale)) =
             blend_pixel (alpha_of (getpixel grid x y))
               (getpixel header x (y + nat (80 * scale))) (getpixel grid x y))"
proof -
  let ?sheets = "take 20 sprite_sheets"
  have ne: "?sheets \<noteq> []" using assms(1) by simp
  have len: "length ?sheets = min 20 (length sprite_sheets)" by (simp add: min.commute)
  from preview_sprites_of_shape [OF assms(2), of ?sheets] obtain sprites where
    sp: "preview_sprites_of ?sheets scale = Inr sprites" "length sprites = length ?sheets"
    and sppx: "\<forall>i<length ?sheets.
                 mode (sprites ! i) = mode (?sheets ! i)
                 \<and> width (sprites ! i) = height (?sheets ! i) * nat scale
                 \<and> height (sprites ! i) = height (?sheets ! i) * nat scale
                 \<and> (\<forall>x<height (?sheets ! i) * nat scale. \<forall>y<height (?sheets ! i) * nat scale.
                       getpixel (sprites ! i) x y =
                         (if x div nat scale < width (?sheets ! i)
                          then getpixel (?sheets ! i) (x div nat scale) (y div nat scale)
                          else (0, 0, 0, 0)))"
    by blast
  have "length sprites \<noteq> 0" using sp(2) ne by (simp only: length_0_conv) simp
  then have spne: "sprites \<noteq> []" by auto
  have sc: "int (nat scale) = scale" using assms(2) by simp
  have hd0: "hd sprites = sprites ! 0" "hd sprite_sheets = ?sheets ! 0"
    using spne assms(1) by (simp_all add: hd_conv_nth)
  have "0 < length ?sheets" using ne by simp
  with sppx have "width (sprites ! 0) = height (?sheets ! 0) * nat scale"
    "height (sprites ! 0) = height (?sheets ! 0) * nat scale" by blast+
  then have w0: "int (width (hd sprites)) = int (height (hd sprite_sheets)) * scale"
    and h0: "int (height (hd sprites)) = int (height (hd sprite_sheets)) * scale"
    using hd0 sc by simp_all
  have "0 \<le> 8 * scale" using assms(2) by simp
  from create_grid_layout_shape [OF spne assms(3) this, of bg_color] obtain grid where
    g: "create_grid_layout sprites cols (8 * scale) bg_color = Inr grid"
    and gw: "int (width grid) = cols * int (width (hd sprites)) + (cols + 1) * (8 * scale)"
    and gh: "int (height grid) =
                ((int (length sprites) + cols - 1) div cols) * int (height (hd sprites))
                + ((int (length sprites) + cols - 1) div cols + 1) * (8 * scale)"
    by blast
  let ?H = "80 * scale"
  define canvas where "canvas = mk_image RGBA (width grid) (nat (int (height grid) + ?H)) (\<lambda>x y. bg_color)"
  have Hpos: "0 \<le> ?H" using assms(2) by simp
  have cv: "Image_new RGBA (int (width grid), int (height grid) + ?H) bg_color = Inr canvas"
    using Hpos by (simp add: Image_new_def canvas_def)
  from draw_header_ok [OF assms(4)] obtain header where
    hd: "draw_header lib pack_metadata scale canvas = Inr header" by blast
  from draw_header_fields [OF hd] have hf: "mode header = RGBA" "width header = width grid"
    "height header = nat (int (height grid) + ?H)"
    by (simp_all add: canvas_def)
  define preview where "preview = paste header grid (0, ?H) (Some grid)"
  have res: "create_pack_preview sprite_sheets pack_metadata scale cols output_path lib fs =
          (Inr preview, case output_path of None \<Rightarrow> fs | Some path \<Rightarrow> fs(path \<mapsto> preview))"
    using assms(1) sp(1) g cv hd
    by (simp add: create_pack_preview_def Let_def preview_def split: option.splits)
  have pf: "mode preview = RGBA" "width preview = width grid"
    "int (height preview) = int (height grid) + ?H"
    using hf Hpos by (simp_all add: preview_def)
  have top: "getpixel preview x y = getpixel header x y" if "x < width grid" "y < nat ?H" for x y
  proof -
    have "y < height header" using that(2) hf(3) Hpos by linarith
    moreover have "int y < ?H" using that(2) by linarith
    then have "\<not> covers grid (0, ?H) x y" by (simp add: covers_def)
    ultimately show ?thesis using that(1) hf(2) by (simp add: preview_def getpixel_paste)
  qed
  have below: "getpixel preview x (y + nat ?H) =
             blend_pixel (alpha_of (getpixel grid x y))
               (getpixel header x (y + nat ?H)) (getpixel grid x y)"
    if "x < width grid" "y < height grid" for x y
  proof -
    have yh: "y + nat ?H < height header" using that(2) hf(3) Hpos by linarith
    have cov: "covers grid (0, ?H) x (y + nat ?H)" using that Hpos by (simp add: covers_def)
    have m: "mode grid = RGBA" using g by (rule create_grid_layout_mode)
    have "nat (int (y + nat ?H) - ?H) = y" using Hpos by simp
    then show ?thesis
      using that(1) hf(2) yh cov m
      by (simp add: preview_def getpixel_paste paste_pixel_def Let_def)
  qed
  have sprites_ok: "\<forall>i<length sprites.
           width (sprites ! i) = height (sprite_sheets ! i) * nat scale
           \<and> height (sprites ! i) = height (sprite_sheets ! i) * nat scale
           \<and> (\<forall>x<height (sprite_sheets ! i) * nat scale. \<forall>y<height (sprite_sheets ! i) * nat scale.
                 getpixel (sprites ! i) x y =
                   (if x div nat scale < width (sprite_sheets ! i)
                    then getpixel (sprite_sheets ! i) (x div nat scale) (y div nat scale)
                    else (0, 0, 0, 0)))"
  proof (intro allI impI)
    fix i assume i: "i < length sprites"
    then have "i < length ?sheets" using sp(2) by simp
    moreover from this have "?sheets ! i = sprite_sheets ! i" by simp
    ultimately show "width (sprites ! i) = height (sprite_sheets ! i) * nat scale
           \<and> height (sprites ! i) = height (sprite_sheets ! i) * nat scale
           \<and> (\<forall>x<height (sprite_sheets ! i) * nat scale. \<forall>y<height (sprite_sheets ! i) * nat scale.
                 getpixel (sprites ! i) x y =
                   (if x div nat scale < width (sprite_sheets ! i)
                    then getpixel (sprite_sheets ! i) (x div nat scale) (y div nat scale)
                    else (0, 0, 0, 0)))"
      using sppx by metis
  qed
  have gw': "int (width grid) = cols * (int (height (hd sprite_sheets)) * scale) + (cols + 1) * (8 * scale)"
    using gw w0 by simp
  have gh': "int (height grid) =
          ((int (min 20 (length sprite_sheets)) + cols - 1) div cols) * (int (height (hd sprite_sheets)) * scale)
          + ((int (min 20 (length sprite_sheets)) + cols - 1) div cols + 1) * (8 * scale)"
    using gh h0 sp(2) len by simp
  have l: "length sprites = min 20 (length sprite_sheets)" using sp(2) len by simp
  from sp(1) l sprites_ok g gw' gh' cv hd res pf top below show ?thesis by blast
qed


section \<open>Output modes\<close>







section \<open>Facts about blending\<close>

lemma div255_mult: "v \<le> 255 \<Longrightarrow> div255 (v * 255) = v"
proof -
  assume v: "v \<le> 255"
  have a: "(v * 255 + 128) div 256 = (if v \<le> 128 then v else v - 1)"
    using v by (simp add: div_nat_eqI)
  have "((if v \<le> 128 then v else v - 1) + (v * 255 + 128)) div 256 = v"
    using v by (simp add: div_nat_eqI)
  with a show ?thesis by (simp add: div255_def Let_def)
qed


lemma blend_opaque [simp]: "blend 255 d s = s"
proof -
  have "unat s \<le> 255" using unsigned_less [of s, where ?'a = nat] by simp
  then have "div255 (unat s * 255) = unat s" by (rule div255_mult)
  then show ?thesis by (simp add: blend_def)
qed

lemma blend_transparent [simp]: "blend 0 d s = d"
proof -
  have "unat d \<le> 255" using unsigned_less [of d, where ?'a = nat] by simp
  then have "div255 (unat d * 255) = unat d" by (rule div255_mult)
  then show ?thesis by (simp add: blend_def)
qed

lemma blend_pixel_opaque [simp]: "blend_pixel 255 old p = p"
  by (cases old, cases p) simp

lemma blend_pixel_transparent [simp]: "blend_pixel 0 old p = old"
  by (cases old, cases p) simp

section \<open>Facts about the cells of the grid\<close>

lemma paste_cells_Cons:
  "paste_cells (img # images) idx cols w h s grid =
     paste_cells images (idx + 1) cols w h s (paste grid img (cell_origin idx cols w h s) (mask_of img))"
  by (simp add: cell_origin_def Let_def)

lemma paste_cells_outside:
  "X < width grid \<Longrightarrow> Y < height grid \<Longrightarrow>
   (\<forall>k<length images. \<not> covers (images ! k) (cell_origin (idx + int k) cols w h s) X Y) \<Longrightarrow>
   getpixel (paste_cells images idx cols w h s grid) X Y = getpixel grid X Y"
proof (induction images arbitrary: idx grid)
  case Nil
  then show ?case by simp
next
  case (Cons img images)
  let ?grid' = "paste grid img (cell_origin idx cols w h s) (mask_of img)"
  have n0: "\<not> covers img (cell_origin idx cols w h s) X Y"
    using Cons.prems(3) [rule_format, of 0] by simp
  have rest: "\<forall>k<length images. \<not> covers (images ! k) (cell_origin (idx + 1 + int k) cols w h s) X Y"
  proof (intro allI impI)
    fix k assume "k < length images"
    then show "\<not> covers (images ! k) (cell_origin (idx + 1 + int k) cols w h s) X Y"
      using Cons.prems(3) [rule_format, of "Suc k"] by (simp add: algebra_simps)
  qed
  have "getpixel (paste_cells images (idx + 1) cols w h s ?grid') X Y = getpixel ?grid' X Y"
    using Cons.IH [of ?grid' "idx + 1"] Cons.prems(1,2) rest by simp
  also have "\<dots> = getpixel grid X Y"
    using n0 Cons.prems(1,2) by (simp add: getpixel_paste)
  finally show ?case by (simp only: paste_cells_Cons)
qed

lemma paste_cells_inside:
  "X < width grid \<Longrightarrow> Y < height grid \<Longrightarrow> i < length images \<Longrightarrow>
   covers (images ! i) (cell_origin (idx + int i) cols w h s) X Y \<Longrightarrow>
   (\<forall>k<length images. k \<noteq> i \<longrightarrow>
      \<not> covers (images ! k) (cell_origin (idx + int k) cols w h s) X Y) \<Longrightarrow>
   getpixel (paste_cells images idx cols w h s grid) X Y =
     paste_pixel (images ! i) (mask_of (images ! i))
       (nat (int X - fst (cell_origin (idx + int i) cols w h s)))
       (nat (int Y - snd (cell_origin (idx + int i) cols w h s))) (getpixel grid X Y)"
proof (induction images arbitrary: idx grid i)
  case Nil
  then show ?case by simp
next
  case (Cons img images)
  let ?grid' = "paste grid img (cell_origin idx cols w h s) (mask_of img)"
  show ?case
  proof (cases i)
    case 0
    have rest: "\<forall>k<length images. \<not> covers (images ! k) (cell_origin (idx + 1 + int k) cols w h s) X Y"
    proof (intro allI impI)
      fix k assume "k < length images"
      then show "\<not> covers (images ! k) (cell_origin (idx + 1 + int k) cols w h s) X Y"
        using Cons.prems(5) [rule_format, of "Suc k"] 0 by (simp add: algebra_simps)
    qed
    have "getpixel (paste_cells images (idx + 1) cols w h s ?grid') X Y = getpixel ?grid' X Y"
      using paste_cells_outside [of X ?grid' Y images "idx + 1" cols w h s] Cons.prems(1,2) rest
      by simp
    moreover have "getpixel ?grid' X Y =
        paste_pixel img (mask_of img) (nat (int X - fst (cell_origin idx cols w h s)))
          (nat (int Y - snd (cell_origin idx cols w h s))) (getpixel grid X Y)"
      using 0 Cons.prems(1,2,4) by (simp add: getpixel_paste)
    ultimately show ?thesis using 0 by (simp only: paste_cells_Cons) simp
  next
    case (Suc j)
    have j: "j < length images" using Cons.prems(3) Suc by simp
    have eqj: "idx + 1 + int j = idx + int (Suc j)" by simp
    have cov: "covers (images ! j) (cell_origin (idx + 1 + int j) cols w h s) X Y"
      using Cons.prems(4) Suc by (simp only: eqj) simp
    have others: "\<forall>k<length images. k \<noteq> j \<longrightarrow>
        \<not> covers (images ! k) (cell_origin (idx + 1 + int k) cols w h s) X Y"
    proof (intro allI impI)
      fix k assume "k < length images" "k \<noteq> j"
      then show "\<not> covers (images ! k) (cell_origin (idx + 1 + int k) cols w h s) X Y"
        using Cons.prems(5) [rule_format, of "Suc k"] Suc by (simp add: algebra_simps)
    qed
    have n0: "\<not> covers img (cell_origin idx cols w h s) X Y"
      using Cons.prems(5) [rule_format, of 0] Suc by simp
    have "getpixel (paste_cells images (idx + 1) cols w h s ?grid') X Y =
          paste_pixel (images ! j) (mask_of (images ! j))
            (nat (int X - fst (cell_origin (idx + 1 + int j) cols w h s)))
            (nat (int Y - snd (cell_origin (idx + 1 + int j) cols w h s))) (getpixel ?grid' X Y)"
      using Cons.IH [of ?grid' j "idx + 1"] Cons.prems(1,2) j cov others by simp
    moreover have "getpixel ?grid' X Y = getpixel grid X Y"
      using n0 Cons.prems(1,2) by (simp add: getpixel_paste)
    ultimately show ?thesis using Suc by (simp only: paste_cells_Cons eqj) simp
  qed
qed

lemma stride_apart:
  fixes a b w s :: int
  assumes "a < b" and "0 \<le> w" and "0 \<le> s"
  shows "a * (w + s) + w \<le> b * (w + s)"
proof -
  have "(a + 1) * (w + s) \<le> b * (w + s)"
    using assms by (intro mult_right_mono) simp_all
  moreover have "a * (w + s) + w \<le> (a + 1) * (w + s)"
    using assms(3) by (simp add: algebra_simps)
  ultimately show ?thesis by linarith
qed

lemma cells_apart:
  fixes i k cols :: int
  assumes "0 < cols" and "i \<noteq> k" and "0 \<le> s"
    and "covers a (cell_origin i cols (int (width a)) (int (height a)) s) X Y"
    and "width b = width a" and "height b = height a"
  shows "\<not> covers b (cell_origin k cols (int (width a)) (int (height a)) s) X Y"
proof -
  let ?W = "int (width a)" and ?H = "int (height a)"
  have "i mod cols \<noteq> k mod cols \<or> i div cols \<noteq> k div cols"
    using assms(2) by (metis div_mult_mod_eq)
  then consider "i mod cols < k mod cols" | "k mod cols < i mod cols"
    | "i div cols < k div cols" | "k div cols < i div cols" by linarith
  then show ?thesis
  proof cases
    case 1
    from stride_apart [OF this, of ?W s] assms(3,4,5) show ?thesis
      by (simp add: covers_def cell_origin_def)
  next
    case 2
    from stride_apart [OF this, of ?W s] assms(3,4,5) show ?thesis
      by (simp add: covers_def cell_origin_def)
  next
    case 3
    from stride_apart [OF this, of ?H s] assms(3,4,6) show ?thesis
      by (simp add: covers_def cell_origin_def)
  next
    case 4
    from stride_apart [OF this, of ?H s] assms(3,4,6) show ?thesis
      by (simp add: covers_def cell_origin_def)
  qed
qed

lemma create_grid_layout_cells:
  assumes "images \<noteq> []" and "1 \<le> cols" and "0 \<le> spacing"
    and "\<forall>im\<in>set images. width im = W \<and> height im = H"
  shows "\<exists>grid. create_grid_layout images cols spacing background = Inr grid
           \<and> (\<forall>i<length images. \<forall>x<W. \<forall>y<H.
                 getpixel grid
                   (nat (spacing + (int i mod cols) * (int W + spacing)) + x)
                   (nat (spacing + (int i div cols) * (int H + spacing)) + y)
                 = paste_pixel (images ! i) (mask_of (images ! i)) x y background)"
proof -
  obtain img0 rest where im: "images = img0 # rest" using assms(1) by (cases images) auto
  have w0: "width img0 = W" and h0: "height img0 = H" using assms(4) im by simp_all
  let ?n = "int (length images)"
  let ?r = "(?n + cols - 1) div cols"
  let ?tw = "cols * int W + (cols + 1) * spacing"
  let ?th = "?r * int H + (?r + 1) * spacing"
  have r: "0 \<le> ?r" using assms(2) by (simp add: pos_imp_zdiv_nonneg_iff)
  have tw: "0 \<le> ?tw" using assms(2,3) by simp
  have th: "0 \<le> ?th" using r assms(3) by simp
  define grid0 where "grid0 = mk_image RGBA (nat ?tw) (nat ?th) (\<lambda>x y. background)"
  define grid where "grid = paste_cells images 0 cols (int W) (int H) spacing grid0"
  have res: "create_grid_layout images cols spacing background = Inr grid"
    using assms(2) tw th w0 h0 unfolding im create_grid_layout_def Image_new_def Let_def grid_def grid0_def
    by (simp add: not_less)
  have px: "getpixel grid
                   (nat (spacing + (int i mod cols) * (int W + spacing)) + x)
                   (nat (spacing + (int i div cols) * (int H + spacing)) + y)
                 = paste_pixel (images ! i) (mask_of (images ! i)) x y background"
    if i: "i < length images" and x: "x < W" and y: "y < H" for i x y
  proof -
    let ?c = "int i mod cols" and ?q = "int i div cols"
    let ?ox = "spacing + ?c * (int W + spacing)" and ?oy = "spacing + ?q * (int H + spacing)"
    let ?X = "nat ?ox + x" and ?Y = "nat ?oy + y"
    have cpos: "0 \<le> ?c" and clt: "?c < cols" using assms(2) by simp_all
    have qpos: "0 \<le> ?q" using assms(2) by (simp add: pos_imp_zdiv_nonneg_iff)
    have ox0: "0 \<le> ?ox" using cpos assms(3) by simp
    have oy0: "0 \<le> ?oy" using qpos assms(3) by simp
    have co: "cell_origin (int i) cols (int W) (int H) spacing = (?ox, ?oy)"
      by (simp add: cell_origin_def)
    have imi: "width (images ! i) = W" "height (images ! i) = H"
      using assms(4) i by simp_all
    have cov: "covers (images ! i) (cell_origin (0 + int i) cols (int W) (int H) spacing) ?X ?Y"
      using ox0 oy0 x y imi by (simp add: co covers_def)
    have "?c * (int W + spacing) + int W \<le> cols * (int W + spacing)"
      using stride_apart [OF clt, of "int W" spacing] assms(3) by simp
    then have "?ox + int x < ?tw" using x assms(3) by (simp add: algebra_simps)
    then have Xlt: "?X < width grid0" using ox0 by (simp add: grid0_def)
    have "int i \<le> ?n - 1" using i by simp
    then have "?q \<le> (?n - 1) div cols" using assms(2) by (simp add: zdiv_mono1)
    moreover have "?r = (?n - 1) div cols + 1"
    proof -
      have e: "?n + cols - 1 = (?n - 1) + cols" by linarith
      have "cols \<noteq> 0" using assms(2) by simp
      then have "((?n - 1) + cols) div cols = (?n - 1) div cols + 1"
        by (rule div_add_self2)
      then show ?thesis by (simp only: e)
    qed
    ultimately have qlt: "?q < ?r" by linarith
    have "?q * (int H + spacing) + int H \<le> ?r * (int H + spacing)"
      using stride_apart [OF qlt, of "int H" spacing] assms(3) by simp
    then have "?oy + int y < ?th" using y assms(3) by (simp add: algebra_simps)
    then have Ylt: "?Y < height grid0" using oy0 by (simp add: grid0_def)
    have others: "\<forall>k<length images. k \<noteq> i \<longrightarrow>
        \<not> covers (images ! k) (cell_origin (0 + int k) cols (int W) (int H) spacing) ?X ?Y"
    proof (intro allI impI)
      fix k assume k: "k < length images" "k \<noteq> i"
      have kk: "width (images ! k) = width (images ! i)" "height (images ! k) = height (images ! i)"
        using assms(4) k(1) i by simp_all
      have "0 < cols" using assms(2) by simp
      moreover have "int i \<noteq> int k" using k(2) by simp
      ultimately show "\<not> covers (images ! k) (cell_origin (0 + int k) cols (int W) (int H) spacing) ?X ?Y"
        using cells_apart [of cols "int i" "int k" spacing "images ! i" ?X ?Y "images ! k"]
          assms(3) cov kk imi by simp
    qed
    have "getpixel grid ?X ?Y =
      paste_pixel (images ! i) (mask_of (images ! i))
       (nat (int ?X - fst (cell_origin (0 + int i) cols (int W) (int H) spacing)))
       (nat (int ?Y - snd (cell_origin (0 + int i) cols (int W) (int H) spacing))) (getpixel grid0 ?X ?Y)"
      unfolding grid_def using Xlt Ylt i cov others by (rule paste_cells_inside)
    moreover have "nat (int ?X - ?ox) = x" "nat (int ?Y - ?oy) = y" using ox0 oy0 by simp_all
    moreover have "getpixel grid0 ?X ?Y = background" using Xlt Ylt by (simp add: grid0_def)
    ultimately show ?thesis by (simp add: co)
  qed
  from res px show ?thesis by blast
qed

section \<open>The pack preview\<close>

text \<open>
  C9. For a non-empty list of sheets, a scale of at least 1 and at least one column
  (and a font library whose \<open>truetype\<close> raises nothing but OSError),
  \<open>create_pack_preview\<close> returns a preview built as follows. It takes the first 20
  sheets at most, in order. Sprite \<open>i\<close> is the square of side \<open>height\<close> cut from the left
  edge of sheet \<open>i\<close> (zero beyond the sheet's width), scaled by \<open>scale\<close>: its pixel
  \<open>(x, y)\<close> is the sheet's pixel \<open>(x div scale, y div scale)\<close>. The sprites go through
  \<open>create_grid_layout\<close> with spacing \<open>8 * scale\<close>, whose size follows from the first
  sheet's height; when the sheets shown are equally high, sprite \<open>i\<close> fills the cell in
  column \<open>i mod cols\<close> and row \<open>i div cols\<close>, pasted on the background through its own
  alpha. The preview is as wide as the grid and \<open>80 * scale\<close> higher; its first
  \<open>80 * scale\<close> rows are the header drawn on the background, and below them the grid
  is pasted through its own alpha, so that an opaque grid pixel is shown as it is. The
  file is written when a path is given.
\<close>

theorem create_pack_preview_layout:
  assumes "sprite_sheets \<noteq> []" and "1 \<le> scale" and "1 \<le> cols"
    and "\<forall>p s e. truetype lib p s = Inl e \<longrightarrow> e = OSError"
  shows "\<exists>sprites grid canvas header preview.
     preview_sprites_of (take 20 sprite_sheets) scale = Inr sprites
     \<and> length sprites = min 20 (length sprite_sheets)
     \<and> (\<forall>i<length sprites.
           mode (sprites ! i) = mode (sprite_sheets ! i)
           \<and> width (sprites ! i) = height (sprite_sheets ! i) * nat scale
           \<and> height (sprites ! i) = height (sprite_sheets ! i) * nat scale
           \<and> (\<forall>x<height (sprite_sheets ! i) * nat scale. \<forall>y<height (sprite_sheets ! i) * nat scale.
                 getpixel (sprites ! i) x y =
                   (if x div nat scale < width (sprite_sheets ! i)
                    then getpixel (sprite_sheets ! i) (x div nat scale) (y div nat scale)
                    else (0, 0, 0, 0))))
     \<and> create_grid_layout sprites cols (8 * scale) bg_color = Inr grid
     \<and> int (width grid) = cols * (int (height (hd sprite_sheets)) * scale) + (cols + 1) * (8 * scale)
     \<and> int (height grid) =
          ((int (min 20 (length sprite_sheets)) + cols - 1) div cols) * (int (height (hd sprite_sheets)) * scale)
          + ((int (min 20 (length sprite_sheets)) + cols - 1) div cols + 1) * (8 * scale)
     \<and> ((\<forall>i<length sprites. height (sprite_sheets ! i) = height (hd sprite_sheets)) \<longrightarrow>
          (\<forall>i<length sprites.
             \<forall>x<height (hd sprite_sheets) * nat scale. \<forall>y<height (hd sprite_sheets) * nat scale.
               getpixel grid
                 (nat (8 * scale + (int i mod cols) * (int (height (hd sprite_sheets) * nat scale) + 8 * scale)) + x)
                 (nat (8 * scale + (int i div cols) * (int (height (hd sprite_sheets) * nat scale) + 8 * scale)) + y)
               = paste_pixel (sprites ! i) (mask_of (sprites ! i)) x y bg_color))
     \<and> Image_new RGBA (int (width grid), int (height grid) + 80 * scale) bg_color = Inr canvas
     \<and> draw_header lib pack_metadata scale canvas = Inr header
     \<and> create_pack_preview sprite_sheets pack_metadata scale cols output_path lib fs =
          (Inr preview, case output_path of None \<Rightarrow> fs | Some path \<Rightarrow> fs(path \<mapsto> preview))
     \<and> mode preview = RGBA
     \<and> width preview = width grid
     \<and> int (height preview) = int (height grid) + 80 * scale
     \<and> (\<forall>x<width grid. \<forall>y<nat (80 * scale). getpixel preview x y = getpixel header x y)
     \<and> (\<forall>x<width grid. \<forall>y<height grid.
           getpixel preview x (y + nat (80 * scale)) =
             blend_pixel (alpha_of (getpixel grid x y))
               (getpixel header x (y + nat (80 * scale))) (getpixel grid x y)
           \<and> (alpha_of (getpixel grid x y) = 255 \<longrightarrow>
                getpixel preview x (y + nat (80 * scale)) = getpixel grid x y))"
proof -
  from create_pack_preview_shape [OF assms, of pack_metadata output_path fs]
  obtain sprites grid canvas header preview where
    sp: "preview_sprites_of (take 20 sprite_sheets) scale = Inr sprites"
    and len: "length sprites = min 20 (length sprite_sheets)"
    and g: "create_grid_layout sprites cols (8 * scale) bg_color = Inr grid"
    and gw: "int (width grid) = cols * (int (height (hd sprite_sheets)) * scale) + (cols + 1) * (8 * scale)"
    and gh: "int (height grid) =
          ((int (min 20 (length sprite_sheets)) + cols - 1) div cols) * (int (height (hd sprite_sheets)) * scale)
          + ((int (min 20 (length sprite_sheets)) + cols - 1) div cols + 1) * (8 * scale)"
    and cv: "Image_new RGBA (int (width grid), int (height grid) + 80 * scale) bg_color = Inr canvas"
    and hd: "draw_header lib pack_metadata scale canvas = Inr header"
    and res: "create_pack_preview sprite_sheets pack_metadata scale cols output_path lib fs =
          (Inr preview, case output_path of None \<Rightarrow> fs | Some path \<Rightarrow> fs(path \<mapsto> preview))"
    and pf: "mode preview = RGBA" "width preview = width grid"
      "int (height preview) = int (height grid) + 80 * scale"
    and top: "\<forall>x<width grid. \<forall>y<nat (80 * scale). getpixel preview x y = getpixel header x y"
    and below: "\<forall>x<width grid. \<forall>y<height grid.
           getpixel preview x (y + nat (80 * scale)) =
             blend_pixel (alpha_of (getpixel grid x y))
               (getpixel header x (y + nat (80 * scale))) (getpixel grid x y)"
    by (elim exE conjE)
  let ?sheets = "take 20 sprite_sheets"
  from preview_sprites_of_shape [OF assms(2), of ?sheets] sp have
    sppx: "\<forall>i<length ?sheets.
                 mode (sprites ! i) = mode (?sheets ! i)
                 \<and> width (sprites ! i) = height (?sheets ! i) * nat scale
                 \<and> height (sprites ! i) = height (?sheets ! i) * nat scale
                 \<and> (\<forall>x<height (?sheets ! i) * nat scale. \<forall>y<height (?sheets ! i) * nat scale.
                       getpixel (sprites ! i) x y =
                         (if x div nat scale < width (?sheets ! i)
                          then getpixel (?sheets ! i) (x div nat scale) (y div nat scale)
                          else (0, 0, 0, 0)))"
    by auto
  have len': "length ?sheets = length sprites" using len by (simp add: min.commute)
  have sprites_ok: "\<forall>i<length sprites.
           mode (sprites ! i) = mode (sprite_sheets ! i)
           \<and> width (sprites ! i) = height (sprite_sheets ! i) * nat scale
           \<and> height (sprites ! i) = height (sprite_sheets ! i) * nat scale
           \<and> (\<forall>x<height (sprite_sheets ! i) * nat scale. \<forall>y<height (sprite_sheets ! i) * nat scale.
                 getpixel (sprites ! i) x y =
                   (if x div nat scale < width (sprite_sheets ! i)
                    then getpixel (sprite_sheets ! i) (x div nat scale) (y div nat scale)
                    else (0, 0, 0, 0)))"
  proof (intro allI impI)
    fix i assume i: "i < length sprites"
    then have il: "i < length ?sheets" using len' by simp
    then have e: "?sheets ! i = sprite_sheets ! i" by simp
    from sppx [rule_format, OF il]
    show "mode (sprites ! i) = mode (sprite_sheets ! i)
           \<and> width (sprites ! i) = height (sprite_sheets ! i) * nat scale
           \<and> height (sprites ! i) = height (sprite_sheets ! i) * nat scale
           \<and> (\<forall>x<height (sprite_sheets ! i) * nat scale. \<forall>y<height (sprite_sheets ! i) * nat scale.
                 getpixel (sprites ! i) x y =
                   (if x div nat scale < width (sprite_sheets ! i)
                    then getpixel (sprite_sheets ! i) (x div nat scale) (y div nat scale)
                    else (0, 0, 0, 0)))"
      unfolding e by blast
  qed
  have spne: "sprites \<noteq> []" using len assms(1) by (cases sprite_sheets) auto
  let ?S = "height (hd sprite_sheets) * nat scale"
  have cells: "\<forall>i<length sprites. \<forall>x<?S. \<forall>y<?S.
               getpixel grid
                 (nat (8 * scale + (int i mod cols) * (int ?S + 8 * scale)) + x)
                 (nat (8 * scale + (int i div cols) * (int ?S + 8 * scale)) + y)
               = paste_pixel (sprites ! i) (mask_of (sprites ! i)) x y bg_color"
    if uni: "\<forall>i<length sprites. height (sprite_sheets ! i) = height (hd sprite_sheets)"
  proof -
    have all: "\<forall>im\<in>set sprites. width im = ?S \<and> height im = ?S"
    proof
      fix im assume "im \<in> set sprites"
      then obtain i where i: "i < length sprites" "im = sprites ! i"
        by (auto simp: in_set_conv_nth)
      with sprites_ok uni show "width im = ?S \<and> height im = ?S" by simp
    qed
    have "0 \<le> 8 * scale" using assms(2) by simp
    from create_grid_layout_cells [OF spne assms(3) this all, of bg_color] g
    show ?thesis by auto
  qed
  have below': "\<forall>x<width grid. \<forall>y<height grid.
           getpixel preview x (y + nat (80 * scale)) =
             blend_pixel (alpha_of (getpixel grid x y))
               (getpixel header x (y + nat (80 * scale))) (getpixel grid x y)
           \<and> (alpha_of (getpixel grid x y) = 255 \<longrightarrow>
                getpixel preview x (y + nat (80 * scale)) = getpixel grid x y)"
    using below by simp
  from sp len sprites_ok g gw gh cells cv hd res pf top below' show ?thesis by blast
qed


theorem create_pack_preview_layout_witness:
  "\<exists>preview.
     create_pack_preview
       (map (\<lambda>i. mk_image RGBA 2 1 (\<lambda>x y. (of_nat i, of_nat x, 3, 255))) [0..<21])
       \<lparr>pack_id = ''p1'', pack_name = ''Pack'', theme_name = ''forest'', generation_date = ''2024'',
        resolution = (1, 1), num_creatures = 21, num_variants = 1, animation_types = [''idle'']\<rparr>
       2 2 (Some ''preview.png'')
       \<lparr>truetype = (\<lambda>p s. Inl OSError), load_default = DefaultFont,
        textbbox = (\<lambda>xy s f. (0, 0, 0, 0)), text_pixel = (\<lambda>xy s fill f x y p. p)\<rparr>
       Map.empty
     = (Inr preview, [''preview.png'' \<mapsto> preview])
     \<and> mode preview = RGBA \<and> width preview = 52 \<and> height preview = 356
     \<and> getpixel preview 34 194 = (3, 0, 3, 255)
     \<and> getpixel preview 35 195 = (3, 0, 3, 255)
     \<and> getpixel preview 16 338 = (18, 0, 3, 255)"
proof -
  define sheets where
    "sheets = map (\<lambda>i. mk_image RGBA 2 1 (\<lambda>x y. (of_nat i, of_nat x, 3, 255 :: byte))) [0..<21]"
  let ?lib = "\<lparr>truetype = (\<lambda>p s. Inl OSError), load_default = DefaultFont,
        textbbox = (\<lambda>xy s f. (0, 0, 0, 0)), text_pixel = (\<lambda>xy s fill f x y p. p)\<rparr>"
  let ?meta = "\<lparr>pack_id = ''p1'', pack_name = ''Pack'', theme_name = ''forest'', generation_date = ''2024'',
        resolution = (1, 1), num_creatures = 21, num_variants = 1, animation_types = [''idle'']\<rparr>"
  let ?sc = "2 :: int"
  let ?cols = "2 :: int"
  have a: "sheets \<noteq> []" and b: "(1::int) \<le> ?sc"
    and c: "\<forall>p s e. truetype ?lib p s = Inl e \<longrightarrow> e = OSError"
    by (simp_all add: sheets_def)
  have hd0: "height (hd sheets) = 1" by (simp add: sheets_def upt_rec)
  have lens: "length sheets = 21" by (simp add: sheets_def)
  have nth: "\<And>i. i < 20 \<Longrightarrow> sheets ! i = mk_image RGBA 2 1 (\<lambda>x y. (of_nat i, of_nat x, 3, 255))"
    by (simp add: sheets_def)
  from create_pack_preview_layout [OF a b b c, of ?meta "Some ''preview.png''" Map.empty]
  show ?thesis
  proof (elim exE conjE)
    fix sprites grid canvas header preview
    assume r: "create_pack_preview sheets ?meta ?sc ?cols (Some ''preview.png'') ?lib Map.empty
          = (Inr preview, case Some ''preview.png'' of None \<Rightarrow> Map.empty | Some path \<Rightarrow> [path \<mapsto> preview])"
      and m: "mode preview = RGBA"
      and w: "width preview = width grid"
        "int (width grid) = ?cols * (int (height (hd sheets)) * ?sc) + (?cols + 1) * (8 * ?sc)"
      and h: "int (height preview) = int (height grid) + 80 * ?sc"
        "int (height grid) =
          ((int (min 20 (length sheets)) + ?cols - 1) div ?cols) * (int (height (hd sheets)) * ?sc)
          + ((int (min 20 (length sheets)) + ?cols - 1) div ?cols + 1) * (8 * ?sc)"
      and len: "length sprites = min 20 (length sheets)"
      and sp: "\<forall>i<length sprites.
           mode (sprites ! i) = mode (sheets ! i)
           \<and> width (sprites ! i) = height (sheets ! i) * nat ?sc
           \<and> height (sprites ! i) = height (sheets ! i) * nat ?sc
           \<and> (\<forall>x<height (sheets ! i) * nat ?sc. \<forall>y<height (sheets ! i) * nat ?sc.
                 getpixel (sprites ! i) x y =
                   (if x div nat ?sc < width (sheets ! i)
                    then getpixel (sheets ! i) (x div nat ?sc) (y div nat ?sc)
                    else (0, 0, 0, 0)))"
      and cells: "(\<forall>i<length sprites. height (sheets ! i) = height (hd sheets)) \<longrightarrow>
          (\<forall>i<length sprites.
             \<forall>x<height (hd sheets) * nat ?sc. \<forall>y<height (hd sheets) * nat ?sc.
               getpixel grid
                 (nat (8 * ?sc + (int i mod ?cols) * (int (height (hd sheets) * nat ?sc) + 8 * ?sc)) + x)
                 (nat (8 * ?sc + (int i div ?cols) * (int (height (hd sheets) * nat ?sc) + 8 * ?sc)) + y)
               = paste_pixel (sprites ! i) (mask_of (sprites ! i)) x y bg_color)"
      and below: "\<forall>x<width grid. \<forall>y<height grid.
           getpixel preview x (y + nat (80 * ?sc)) =
             blend_pixel (alpha_of (getpixel grid x y))
               (getpixel header x (y + nat (80 * ?sc))) (getpixel grid x y)
           \<and> (alpha_of (getpixel grid x y) = 255 \<longrightarrow>
                getpixel preview x (y + nat (80 * ?sc)) = getpixel grid x y)"
    have len20: "length sprites = 20" using len by (simp only: lens)
    have gw: "width grid = 52" using w(2) by (simp only: hd0) simp
    have gh: "height grid = 196" using h(2) by (simp only: hd0 lens) simp
    have pw: "width preview = 52" using w(1) gw by simp
    have ph: "height preview = 356" using h(1) gh by simp
    have uni: "\<forall>i<length sprites. height (sheets ! i) = height (hd sheets)"
      by (simp only: hd0 len20) (simp add: nth)
    have sprite_px: "getpixel (sprites ! i) x y = (of_nat i, 0, 3, 255)"
      and sprite_mode: "mode (sprites ! i) = RGBA"
      if "i < 20" "x < 2" "y < 2" for i x y
    proof -
      have i: "i < length sprites" using that len20 by simp
      have xy: "x div 2 = 0" "y div 2 = 0" using that by simp_all
      from sp [rule_format, OF i] that show "mode (sprites ! i) = RGBA"
        by (simp add: nth)
      from sp [rule_format, OF i] that xy show "getpixel (sprites ! i) x y = (of_nat i, 0, 3, 255)"
        by (simp add: nth)
    qed
    have cell_px: "getpixel grid
                 (nat (16 + (int i mod 2) * 18) + x) (nat (16 + (int i div 2) * 18) + y)
               = (of_nat i, 0, 3, 255)"
      if "i < 20" "x < 2" "y < 2" for i x y
    proof -
      have i: "i < length sprites" using that len20 by simp
      have x: "x < height (hd sheets) * nat ?sc" and y: "y < height (hd sheets) * nat ?sc"
        using that by (simp_all add: hd0)
      from cells uni have "\<forall>i<length sprites.
             \<forall>x<height (hd sheets) * nat ?sc. \<forall>y<height (hd sheets) * nat ?sc.
               getpixel grid
                 (nat (8 * ?sc + (int i mod ?cols) * (int (height (hd sheets) * nat ?sc) + 8 * ?sc)) + x)
                 (nat (8 * ?sc + (int i div ?cols) * (int (height (hd sheets) * nat ?sc) + 8 * ?sc)) + y)
               = paste_pixel (sprites ! i) (mask_of (sprites ! i)) x y bg_color"
        by (rule mp)
      from this [rule_format, OF i x y]
      have "getpixel grid
                 (nat (16 + (int i mod 2) * 18) + x) (nat (16 + (int i div 2) * 18) + y)
            = paste_pixel (sprites ! i) (mask_of (sprites ! i)) x y bg_color"
        by (simp only: hd0) simp
      also have "\<dots> = (of_nat i, 0, 3, 255)"
        using sprite_px [OF that] sprite_mode [OF that]
        by (simp add: paste_pixel_def mask_of_def bg_color_def)
      finally show ?thesis .
    qed
    have shown: "getpixel preview X (Y + 160) = getpixel grid X Y"
      if "X < 52" "Y < 196" "alpha_of (getpixel grid X Y) = 255" for X Y
      using below [rule_format, of X Y] that gw gh by simp
    have g3: "getpixel grid 34 34 = (3, 0, 3, 255)" using cell_px [of 3 0 0] by simp
    have g3': "getpixel grid 35 35 = (3, 0, 3, 255)" using cell_px [of 3 1 1] by simp
    have g18: "getpixel grid 16 178 = (18, 0, 3, 255)" using cell_px [of 18 0 0] by simp
    have p1: "getpixel preview 34 194 = (3, 0, 3, 255)" using shown [of 34 34] g3 by simp
    have p2: "getpixel preview 35 195 = (3, 0, 3, 255)" using shown [of 35 35] g3' by simp
    have p3: "getpixel preview 16 338 = (18, 0, 3, 255)" using shown [of 16 178] g18 by simp
    from r [unfolded sheets_def] m pw ph p1 p2 p3 show ?thesis by simp
  qed
qed

section \<open>Upscaling\<close>

text \<open>
  C7 as stated fails on an image with exactly one side of length zero, which Pillow
  allows: \<open>resize\<close> rejects the target size \<open>(0, 2)\<close> with ValueError, and
  returns a copy only when the size does not change.
\<close>

theorem upscale_zero_width_raises:
  "upscale_nearest_neighbor (mk_image RGBA 0 1 (\<lambda>x y. (0, 0, 0, 0))) 2 = Inl ValueError"
  by (simp add: upscale_nearest_neighbor_def resize_nearest_def)

text \<open>
  C7, amended. For a factor of at least 1 and an image that has either both sides or no
  side of length zero, \<open>upscale_nearest_neighbor\<close> returns an image of the same mode
  and of size \<open>(W * scale, H * scale)\<close> in which the block of \<open>scale\<close> by \<open>scale\<close> pixels
  with top-left corner \<open>(x * scale, y * scale)\<close> holds the source pixel \<open>(x, y)\<close>
  throughout.
\<close>

theorem upscale_replicates_pixels:
  assumes "1 \<le> scale" and "width im = 0 \<longleftrightarrow> height im = 0"
  shows "\<exists>up. upscale_nearest_neighbor im scale = Inr up
           \<and> mode up = mode im
           \<and> width up = width im * nat scale \<and> height up = height im * nat scale
           \<and> (\<forall>x<width im. \<forall>y<height im. \<forall>dx<nat scale. \<forall>dy<nat scale.
                 getpixel up (x * nat scale + dx) (y * nat scale + dy) = getpixel im x y)"
proof -
  from upscale_shape [OF assms] obtain up where
    r: "upscale_nearest_neighbor im scale = Inr up" "mode up = mode im"
       "width up = width im * nat scale" "height up = height im * nat scale"
    and px: "\<forall>x<width up. \<forall>y<height up.
                 getpixel up x y = getpixel im (x div nat scale) (y div nat scale)"
    by blast
  have k: "0 < nat scale" using assms(1) by simp
  have "getpixel up (x * nat scale + dx) (y * nat scale + dy) = getpixel im x y"
    if "x < width im" "y < height im" "dx < nat scale" "dy < nat scale" for x y dx dy
  proof -
    have "x * nat scale + dx < (x + 1) * nat scale" using that(3) by simp
    also have "\<dots> \<le> width im * nat scale" using that(1) by (intro mult_le_mono1) simp
    finally have X: "x * nat scale + dx < width up" using r(3) by simp
    have "y * nat scale + dy < (y + 1) * nat scale" using that(4) by simp
    also have "\<dots> \<le> height im * nat scale" using that(2) by (intro mult_le_mono1) simp
    finally have Y: "y * nat scale + dy < height up" using r(4) by simp
    have "(x * nat scale + dx) div nat scale = x" "(y * nat scale + dy) div nat scale = y"
      using that(3,4) by simp_all
    with px X Y show ?thesis by simp
  qed
  with r show ?thesis by blast
qed

theorem upscale_replicates_pixels_witness:
  "\<exists>up. upscale_nearest_neighbor (mk_image RGBA 2 1 (\<lambda>x y. (of_nat x, 7, 7, 255))) 3 = Inr up
     \<and> mode up = RGBA \<and> width up = 6 \<and> height up = 3
     \<and> getpixel up 2 0 = (0, 7, 7, 255)
     \<and> getpixel up 3 0 = (1, 7, 7, 255)
     \<and> getpixel up 5 2 = (1, 7, 7, 255)"
proof -
  define im where "im = mk_image RGBA 2 1 (\<lambda>x y. (of_nat x, 7, 7, 255 :: byte))"
  have a: "(1::int) \<le> 3" and b: "width im = 0 \<longleftrightarrow> height im = 0"
    by (simp_all add: im_def)
  from upscale_replicates_pixels [OF a b] obtain up where
    r: "upscale_nearest_neighbor im 3 = Inr up" "mode up = mode im"
       "width up = width im * nat 3" "height up = height im * nat 3"
    and px: "\<forall>x<width im. \<forall>y<height im. \<forall>dx<nat 3. \<forall>dy<nat 3.
                 getpixel up (x * nat 3 + dx) (y * nat 3 + dy) = getpixel im x y"
    by blast
  have p1: "getpixel up 2 0 = (0, 7, 7, 255)"
    using px [rule_format, of 0 0 2 0] by (simp add: im_def numeral_2_eq_2)
  have p2: "getpixel up 3 0 = (1, 7, 7, 255)"
    using px [rule_format, of 1 0 0 0] by (simp add: im_def)
  have p3: "getpixel up 5 2 = (1, 7, 7, 255)"
    using px [rule_format, of 1 0 2 2] by (simp add: im_def numeral_2_eq_2)
  from r p1 p2 p3 show ?thesis by (simp add: im_def)
qed

section \<open>Facts about a row of frames\<close>

lemma frames_apart:
  fixes i j :: int
  assumes "i \<noteq> j" and "0 \<le> s"
    and "covers a (x0 + i * (int (width a) + s), y0) X Y"
    and "width b = width a"
  shows "\<not> covers b (x0 + j * (int (width a) + s), y1) X Y"
proof -
  consider "i < j" | "j < i" using assms(1) by linarith
  then show ?thesis
  proof cases
    case 1
    from stride_apart [OF this, of "int (width a)" s] assms(2,3,4) show ?thesis
      by (simp add: covers_def)
  next
    case 2
    from stride_apart [OF this, of "int (width a)" s] assms(2,3,4) show ?thesis
      by (simp add: covers_def)
  qed
qed

lemma paste_frames_row:
  assumes "\<forall>f\<in>set frames. width f = W \<and> height f = H" and "0 \<le> s"
    and "i < length frames" and "x < W" and "y < H" and "0 \<le> x0" and "0 \<le> y0"
    and "nat (x0 + int i * (int W + s)) + x < width sheet" and "nat y0 + y < height sheet"
  shows "getpixel (paste_frames frames x0 y0 (int W) s sheet)
           (nat (x0 + int i * (int W + s)) + x) (nat y0 + y)
         = paste_pixel (frames ! i) (mask_of (frames ! i)) x y
             (getpixel sheet (nat (x0 + int i * (int W + s)) + x) (nat y0 + y))"
proof -
  let ?ox = "x0 + int i * (int W + s)"
  let ?X = "nat ?ox + x" and ?Y = "nat y0 + y"
  have ox0: "0 \<le> ?ox" using assms(2,6) by simp
  have fi: "width (frames ! i) = W" "height (frames ! i) = H" using assms(1,3) by simp_all
  have cov: "covers (frames ! i) (?ox, y0) ?X ?Y"
    using ox0 assms(4,5,7) fi by (simp add: covers_def)
  have others: "\<forall>j<length frames. j \<noteq> i \<longrightarrow> \<not> covers (frames ! j) (x0 + int j * (int W + s), y0) ?X ?Y"
  proof (intro allI impI)
    fix j assume j: "j < length frames" "j \<noteq> i"
    have wj: "width (frames ! j) = width (frames ! i)" using assms(1,3) j(1) by simp
    have "int i \<noteq> int j" using j(2) by simp
    from frames_apart [OF this assms(2), of "frames ! i" x0 y0 ?X ?Y "frames ! j" y0] cov wj fi
    show "\<not> covers (frames ! j) (x0 + int j * (int W + s), y0) ?X ?Y" by simp
  qed
  have "getpixel (paste_frames frames x0 y0 (int W) s sheet) ?X ?Y =
     paste_pixel (frames ! i) (mask_of (frames ! i))
       (nat (int ?X - ?ox)) (nat (int ?Y - y0)) (getpixel sheet ?X ?Y)"
    using assms(8,9,3) cov others by (rule paste_frames_inside)
  moreover have "nat (int ?X - ?ox) = x" "nat (int ?Y - y0) = y"
    using ox0 assms(7) by simp_all
  ultimately show ?thesis by simp
qed

lemma paste_pixel_shown:
  "mode f \<noteq> RGBA \<or> alpha_of (getpixel f x y) = 255 \<Longrightarrow>
   paste_pixel f (mask_of f) x y old = to_rgba (mode f) (getpixel f x y)"
  by (auto simp: paste_pixel_def mask_of_def)

lemma paste_pixel_hidden:
  "mode f = RGBA \<Longrightarrow> alpha_of (getpixel f x y) = 0 \<Longrightarrow>
   paste_pixel f (mask_of f) x y old = old"
  by (simp add: paste_pixel_def mask_of_def)

section \<open>The sheet of one animation\<close>

text \<open>
  C6. For a non-empty list of frames that all have the size \<open>(W, H)\<close> and a spacing
  \<open>s \<ge> 0\<close>, \<open>create_animation_sprite_sheet\<close> returns an RGBA sheet of width
  \<open>N * W + (N - 1) * s\<close> and height \<open>H\<close>. Frame \<open>i\<close> is pasted with its top-left corner
  at \<open>(i * (W + s), 0)\<close>, in the order of the list: there the sheet holds the frame's
  pixel pasted on the background (the frame's own pixel when the frame has no alpha
  channel or the pixel is opaque, the background when the pixel is fully transparent),
  and in the gaps between the frames it holds the background.
\<close>

theorem create_animation_sprite_sheet_layout:
  assumes "frames \<noteq> []" and "0 \<le> spacing"
    and "\<forall>f\<in>set frames. width f = W \<and> height f = H"
  shows "\<exists>sheet. create_animation_sprite_sheet frames spacing background = Inr sheet
           \<and> mode sheet = RGBA
           \<and> int (width sheet) = int (length frames) * int W + (int (length frames) - 1) * spacing
           \<and> height sheet = H
           \<and> (\<forall>i<length frames. \<forall>x<W. \<forall>y<H.
                 getpixel sheet (nat (int i * (int W + spacing)) + x) y
                   = paste_pixel (frames ! i) (mask_of (frames ! i)) x y background
                 \<and> (mode (frames ! i) \<noteq> RGBA \<or> alpha_of (getpixel (frames ! i) x y) = 255 \<longrightarrow>
                      getpixel sheet (nat (int i * (int W + spacing)) + x) y
                        = to_rgba (mode (frames ! i)) (getpixel (frames ! i) x y))
                 \<and> (mode (frames ! i) = RGBA \<and> alpha_of (getpixel (frames ! i) x y) = 0 \<longrightarrow>
                      getpixel sheet (nat (int i * (int W + spacing)) + x) y = background))
           \<and> (\<forall>i<length frames. \<forall>x<nat spacing. \<forall>y<H. i + 1 < length frames \<longrightarrow>
                 getpixel sheet (nat (int i * (int W + spacing)) + W + x) y = background)"
proof -
  obtain f0 rest where fr: "frames = f0 # rest" using assms(1) by (cases frames) auto
  have w0: "width f0 = W" and h0: "height f0 = H" using assms(3) fr by simp_all
  let ?n = "int (length frames)"
  let ?tw = "?n * int W + (?n - 1) * spacing"
  have n1: "1 \<le> ?n" using fr by simp
  have "0 \<le> ?n - 1" using n1 by linarith
  then have "0 \<le> (?n - 1) * spacing" using assms(2) by (rule mult_nonneg_nonneg)
  moreover have "0 \<le> ?n * int W" by simp
  ultimately have "0 \<le> ?n * int W" and "0 \<le> (?n - 1) * spacing" by simp_all
  then have tw: "0 \<le> ?tw" by linarith
  define sheet0 where "sheet0 = mk_image RGBA (nat ?tw) H (\<lambda>x y. background)"
  define sheet where "sheet = paste_frames frames 0 0 (int W) spacing sheet0"
  have res: "create_animation_sprite_sheet frames spacing background = Inr sheet"
    using tw w0 h0 unfolding fr create_animation_sprite_sheet_def Image_new_def Let_def sheet_def sheet0_def
    by (simp add: not_less)
  have m: "mode sheet = RGBA" and w: "int (width sheet) = ?tw" and h: "height sheet = H"
    using tw by (simp_all add: sheet_def sheet0_def)
  have tw_eq: "?tw = (?n - 1) * (int W + spacing) + int W" by (simp add: algebra_simps)
  have px: "getpixel sheet (nat (int i * (int W + spacing)) + x) y
              = paste_pixel (frames ! i) (mask_of (frames ! i)) x y background"
    if i: "i < length frames" and x: "x < W" and y: "y < H" for i x y
  proof -
    let ?ox = "int i * (int W + spacing)"
    have ox0: "0 \<le> ?ox" using assms(2) by simp
    have "int i \<le> ?n - 1" using i by simp
    then have "?ox \<le> (?n - 1) * (int W + spacing)"
      using assms(2) by (intro mult_right_mono) simp_all
    then have "?ox + int x < ?tw" using x tw_eq by linarith
    then have Xlt: "nat (0 + ?ox) + x < width sheet0" using ox0 by (simp add: sheet0_def)
    have Ylt: "nat 0 + y < height sheet0" using y by (simp add: sheet0_def)
    have "getpixel (paste_frames frames 0 0 (int W) spacing sheet0) (nat (0 + ?ox) + x) (nat 0 + y)
          = paste_pixel (frames ! i) (mask_of (frames ! i)) x y
              (getpixel sheet0 (nat (0 + ?ox) + x) (nat 0 + y))"
      using assms(3,2) i x y _ _ Xlt Ylt by (rule paste_frames_row) simp_all
    moreover have "getpixel sheet0 (nat (0 + ?ox) + x) (nat 0 + y) = background"
      using Xlt Ylt by (simp add: sheet0_def)
    ultimately show ?thesis by (simp add: sheet_def)
  qed
  have gap: "getpixel sheet (nat (int i * (int W + spacing)) + W + x) y = background"
    if i: "i + 1 < length frames" and x: "x < nat spacing" and y: "y < H" for i x y
  proof -
    let ?ox = "int i * (int W + spacing)"
    let ?X = "nat ?ox + W + x"
    have ox0: "0 \<le> ?ox" using assms(2) by simp
    have iX: "int ?X = ?ox + int W + int x" using ox0 by simp
    have "int i + 1 \<le> ?n - 1" using i by simp
    then have "(int i + 1) * (int W + spacing) \<le> (?n - 1) * (int W + spacing)"
      using assms(2) by (intro mult_right_mono) simp_all
    moreover have "?ox + int W + int x < (int i + 1) * (int W + spacing)"
      using x by (simp add: algebra_simps)
    ultimately have "int ?X < ?tw" using tw_eq iX by linarith
    then have "?X < nat ?tw" by (simp only: zless_nat_conj) 
    then have Xlt: "?X < width sheet0" by (simp only: sheet0_def mk_image_fields)
    have Ylt: "y < height sheet0" using y by (simp add: sheet0_def)
    have none: "\<forall>j<length frames. \<not> covers (frames ! j) (0 + int j * (int W + spacing), 0) ?X y"
    proof (intro allI impI)
      fix j assume j: "j < length frames"
      have wj: "width (frames ! j) = W" using assms(3) j by simp
      show "\<not> covers (frames ! j) (0 + int j * (int W + spacing), 0) ?X y"
      proof (cases "j \<le> i")
        case True
        then have "int j * (int W + spacing) \<le> ?ox"
          using assms(2) by (intro mult_right_mono) simp_all
        then show ?thesis using wj iX by (simp add: covers_def)
      next
        case False
        then have "int i + 1 \<le> int j" by simp
        then have "(int i + 1) * (int W + spacing) \<le> int j * (int W + spacing)"
          using assms(2) by (intro mult_right_mono) simp_all
        moreover have "?ox + int W + int x < (int i + 1) * (int W + spacing)"
          using x by (simp add: algebra_simps)
        ultimately show ?thesis using iX by (simp add: covers_def)
      qed
    qed
    have "getpixel (paste_frames frames 0 0 (int W) spacing sheet0) ?X y = getpixel sheet0 ?X y"
      using Xlt Ylt none by (rule paste_frames_outside)
    then show ?thesis using Xlt Ylt by (simp add: sheet_def sheet0_def)
  qed
  have all: "\<forall>i<length frames. \<forall>x<W. \<forall>y<H.
                 getpixel sheet (nat (int i * (int W + spacing)) + x) y
                   = paste_pixel (frames ! i) (mask_of (frames ! i)) x y background
                 \<and> (mode (frames ! i) \<noteq> RGBA \<or> alpha_of (getpixel (frames ! i) x y) = 255 \<longrightarrow>
                      getpixel sheet (nat (int i * (int W + spacing)) + x) y
                        = to_rgba (mode (frames ! i)) (getpixel (frames ! i) x y))
                 \<and> (mode (frames ! i) = RGBA \<and> alpha_of (getpixel (frames ! i) x y) = 0 \<longrightarrow>
                      getpixel sheet (nat (int i * (int W + spacing)) + x) y = background)"
    using px by (simp add: paste_pixel_shown paste_pixel_hidden)
  have gaps: "\<forall>i<length frames. \<forall>x<nat spacing. \<forall>y<H. i + 1 < length frames \<longrightarrow>
                 getpixel sheet (nat (int i * (int W + spacing)) + W + x) y = background"
    using gap by blast
  from res m w h all gaps show ?thesis by blast
qed


theorem create_animation_sprite_sheet_layout_witness:
  "\<exists>sheet. create_animation_sprite_sheet
       [mk_image RGBA 2 1 (\<lambda>x y. (1, of_nat x, 0, 255)),
        mk_image RGB 2 1 (\<lambda>x y. (2, of_nat x, 0, 0)),
        mk_image RGBA 2 1 (\<lambda>x y. (3, of_nat x, 0, 0))] 1 (9, 9, 9, 9) = Inr sheet
     \<and> mode sheet = RGBA \<and> width sheet = 8 \<and> height sheet = 1
     \<and> getpixel sheet 1 0 = (1, 1, 0, 255)
     \<and> getpixel sheet 2 0 = (9, 9, 9, 9)
     \<and> getpixel sheet 3 0 = (2, 0, 0, 255)
     \<and> getpixel sheet 6 0 = (9, 9, 9, 9)"
proof -
  define frames where "frames =
       [mk_image RGBA 2 1 (\<lambda>x y. (1, of_nat x, 0, 255 :: byte)),
        mk_image RGB 2 1 (\<lambda>x y. (2, of_nat x, 0, 0)),
        mk_image RGBA 2 1 (\<lambda>x y. (3, of_nat x, 0, 0))]"
  define bg :: pixel where "bg = (9, 9, 9, 9)"
  have a: "frames \<noteq> []" and b: "(0::int) \<le> 1"
    and c: "\<forall>f\<in>set frames. width f = 2 \<and> height f = 1"
    by (simp_all add: frames_def)
  have len: "length frames = 3" by (simp add: frames_def)
  from create_animation_sprite_sheet_layout [OF a b c, of bg] obtain sheet where
    r: "create_animation_sprite_sheet frames 1 bg = Inr sheet" "mode sheet = RGBA"
       "int (width sheet) = int (length frames) * int 2 + (int (length frames) - 1) * 1"
       "height sheet = 1"
    and px: "\<forall>i<length frames. \<forall>x<2. \<forall>y<1.
                 getpixel sheet (nat (int i * (int 2 + 1)) + x) y
                   = paste_pixel (frames ! i) (mask_of (frames ! i)) x y bg
                 \<and> (mode (frames ! i) \<noteq> RGBA \<or> alpha_of (getpixel (frames ! i) x y) = 255 \<longrightarrow>
                      getpixel sheet (nat (int i * (int 2 + 1)) + x) y
                        = to_rgba (mode (frames ! i)) (getpixel (frames ! i) x y))
                 \<and> (mode (frames ! i) = RGBA \<and> alpha_of (getpixel (frames ! i) x y) = 0 \<longrightarrow>
                      getpixel sheet (nat (int i * (int 2 + 1)) + x) y = bg)"
    and gaps: "\<forall>i<length frames. \<forall>x<nat 1. \<forall>y<1. i + 1 < length frames \<longrightarrow>
                 getpixel sheet (nat (int i * (int 2 + 1)) + 2 + x) y = bg"
    by blast
  have w: "width sheet = 8" using r(3) by (simp add: len)
  from px have shown: "\<forall>i<length frames. \<forall>x<2. \<forall>y<1.
        mode (frames ! i) \<noteq> RGBA \<or> alpha_of (getpixel (frames ! i) x y) = 255 \<longrightarrow>
          getpixel sheet (nat (int i * (int 2 + 1)) + x) y
            = to_rgba (mode (frames ! i)) (getpixel (frames ! i) x y)"
    by blast
  from px have hidden: "\<forall>i<length frames. \<forall>x<2. \<forall>y<1.
        mode (frames ! i) = RGBA \<and> alpha_of (getpixel (frames ! i) x y) = 0 \<longrightarrow>
          getpixel sheet (nat (int i * (int 2 + 1)) + x) y = bg"
    by blast
  have p1: "getpixel sheet 1 0 = (1, 1, 0, 255)"
    using shown [rule_format, of 0 1 0] by (simp add: len frames_def)
  have p2: "getpixel sheet 2 0 = bg"
    using gaps [rule_format, of 0 0 0] by (simp add: len numeral_2_eq_2)
  have p3: "getpixel sheet 3 0 = (2, 0, 0, 255)"
    using shown [rule_format, of 1 0 0] by (simp add: len frames_def)
  have p4: "getpixel sheet 6 0 = bg"
    using hidden [rule_format, of 2 0 0] by (simp add: len frames_def)
  from r(1,2,4) w p1 p2 p3 p4 show ?thesis by (simp add: frames_def bg_def)
qed

end
